theory Spec2Isabelle
  imports Main "HOL-Library.Word" "HOL-Library.AList"
begin

section \<open>JavaScript strings\<close>

text \<open>
  A JavaScript string is a sequence of UTF-16 code units. \<open>value.length\<close>,
  \<open>split("")\<close>, regular expressions without the \<open>u\<close> flag and \<open>trim\<close> all work on
  code units; only \<open>for (const ch of value)\<close> walks the string by code point.
\<close>

type_synonym codeunit = "16 word"
type_synonym jsstring = "codeunit list"

text \<open>ASCII literals of the source, written as Isabelle strings.\<close>

definition js :: "string \<Rightarrow> jsstring" where
  "js s = map (\<lambda>c. of_nat (of_char c)) s"

text \<open>
  The character classes of the source's regular expressions (no \<open>u\<close> flag):
  \<open>\s\<close> is WhiteSpace and LineTerminator of ECMAScript, which is also what
  \<open>trim\<close> removes; \<open>\d\<close> is \<open>[0-9]\<close>; \<open>\w\<close> is \<open>[A-Za-z0-9_]\<close>.
\<close>

definition isWhiteSpace :: "codeunit \<Rightarrow> bool" where
  "isWhiteSpace c \<longleftrightarrow>
     (0x09 \<le> c \<and> c \<le> 0x0D) \<or> c = 0x20 \<or> c = 0xA0 \<or> c = 0x1680 \<or>
     (0x2000 \<le> c \<and> c \<le> 0x200A) \<or> c = 0x2028 \<or> c = 0x2029 \<or> c = 0x202F \<or>
     c = 0x205F \<or> c = 0x3000 \<or> c = 0xFEFF"

definition isDigit :: "codeunit \<Rightarrow> bool" where
  "isDigit c \<longleftrightarrow> 0x30 \<le> c \<and> c \<le> 0x39"

definition isUpperAscii :: "codeunit \<Rightarrow> bool" where
  "isUpperAscii c \<longleftrightarrow> 0x41 \<le> c \<and> c \<le> 0x5A"

definition isLowerAscii :: "codeunit \<Rightarrow> bool" where
  "isLowerAscii c \<longleftrightarrow> 0x61 \<le> c \<and> c \<le> 0x7A"

definition isWordChar :: "codeunit \<Rightarrow> bool" where
  "isWordChar c \<longleftrightarrow> isLowerAscii c \<or> isUpperAscii c \<or> isDigit c \<or> c = 0x5F"

definition isAscii :: "codeunit \<Rightarrow> bool" where
  "isAscii c \<longleftrightarrow> c < 0x80"

definition lowerAscii :: "codeunit \<Rightarrow> codeunit" where
  "lowerAscii c = (if isUpperAscii c then c + 0x20 else c)"

definition upperAscii :: "codeunit \<Rightarrow> codeunit" where
  "upperAscii c = (if isLowerAscii c then c - 0x20 else c)"

text \<open>
  \<open>String.prototype.toLowerCase\<close> is the runtime's Unicode case mapping: it is not
  code of the repository, it can change the number of code units and it depends on
  context. Every function of the source that calls it takes it as the parameter
  \<open>toLowerCase\<close>. On a string of ASCII characters the runtime maps \<open>A\<close>..\<open>Z\<close> to
  \<open>a\<close>..\<open>z\<close> and leaves everything else alone; \<open>ascii_lowering\<close> states that
  much of a parameter, and \<open>toLowerCaseAscii\<close> is the mapping that does exactly that
  to every ASCII code unit, used where an ASCII input is evaluated.
\<close>

definition toLowerCaseAscii :: "jsstring \<Rightarrow> jsstring" where
  "toLowerCaseAscii s = map lowerAscii s"

definition ascii_lowering :: "(jsstring \<Rightarrow> jsstring) \<Rightarrow> bool" where
  "ascii_lowering toLowerCase \<longleftrightarrow>
     (\<forall>s. list_all isAscii s \<longrightarrow> toLowerCase s = map lowerAscii s)"

text \<open>\<open>trim\<close>: whitespace is removed from both ends.\<close>

definition trim :: "jsstring \<Rightarrow> jsstring" where
  "trim s = rev (dropWhile isWhiteSpace (rev (dropWhile isWhiteSpace s)))"

text \<open>
  The iteration protocol of strings (\<open>for ... of\<close>): a leading surrogate followed by
  a trailing surrogate is one code point of two code units, every other code unit
  (a lone surrogate too) is a code point by itself.
\<close>

definition isLeadSurrogate :: "codeunit \<Rightarrow> bool" where
  "isLeadSurrogate c \<longleftrightarrow> 0xD800 \<le> c \<and> c \<le> 0xDBFF"

definition isTrailSurrogate :: "codeunit \<Rightarrow> bool" where
  "isTrailSurrogate c \<longleftrightarrow> 0xDC00 \<le> c \<and> c \<le> 0xDFFF"

fun codePoints :: "jsstring \<Rightarrow> jsstring list" where
  "codePoints [] = []"
| "codePoints [c] = [[c]]"
| "codePoints (c # d # cs) =
     (if isLeadSurrogate c \<and> isTrailSurrogate d then [c, d] # codePoints cs
      else [c] # codePoints (d # cs))"

section \<open>The analyzer (src/utils/analyzer.js)\<close>

text \<open>A JavaScript value is a string or something else; \<open>typeof\<close> tells them apart.\<close>

datatype jsvalue = JString jsstring | JNotString

datatype error =
    TypeError \<comment> \<open>\<open>new TypeError("value must be a string")\<close>\<close>
  | QueryError \<comment> \<open>\<open>new Error("Query must be a non-empty string")\<close>, no \<open>code\<close>\<close>
  | Unparseable \<comment> \<open>\<open>new Error("Unable to parse natural language query")\<close>, \<open>code = "UNPARSEABLE"\<close>\<close>

subsection \<open>\<open>sha256Hex\<close>\<close>

text \<open>
  \<open>crypto.createHash("sha256").update(value, "utf8").digest("hex")\<close>: the string is
  encoded as UTF-8 (a lone surrogate becomes U+FFFD), hashed by the runtime's SHA-256,
  taken as the parameter \<open>sha256\<close> from bytes to bytes, and the digest is written in
  lowercase hexadecimal.
\<close>

type_synonym byte = "8 word"

definition codePointValue :: "jsstring \<Rightarrow> nat" where
  "codePointValue ch =
     (case ch of
        [c] \<Rightarrow> (if isLeadSurrogate c \<or> isTrailSurrogate c then 0xFFFD else unat c)
      | [c, d] \<Rightarrow> 0x10000 + (unat c - 0xD800) * 0x400 + (unat d - 0xDC00)
      | _ \<Rightarrow> 0xFFFD)"

definition utf8CodePoint :: "nat \<Rightarrow> byte list" where
  "utf8CodePoint n =
     (if n < 0x80 then [of_nat n]
      else if n < 0x800 then [of_nat (0xC0 + n div 0x40), of_nat (0x80 + n mod 0x40)]
      else if n < 0x10000 then
        [of_nat (0xE0 + n div 0x1000), of_nat (0x80 + n div 0x40 mod 0x40),
         of_nat (0x80 + n mod 0x40)]
      else
        [of_nat (0xF0 + n div 0x40000), of_nat (0x80 + n div 0x1000 mod 0x40),
         of_nat (0x80 + n div 0x40 mod 0x40), of_nat (0x80 + n mod 0x40)])"

definition utf8 :: "jsstring \<Rightarrow> byte list" where
  "utf8 s = concat (map (\<lambda>ch. utf8CodePoint (codePointValue ch)) (codePoints s))"

definition hexDigit :: "nat \<Rightarrow> codeunit" where
  "hexDigit n = (if n < 10 then of_nat (0x30 + n) else of_nat (0x61 + (n - 10)))"

definition hex :: "byte list \<Rightarrow> jsstring" where
  "hex bs = concat (map (\<lambda>b. [hexDigit (unat b div 16), hexDigit (unat b mod 16)]) bs)"

definition sha256Hex :: "(byte list \<Rightarrow> byte list) \<Rightarrow> jsstring \<Rightarrow> jsstring" where
  "sha256Hex sha256 value = hex (sha256 (utf8 value))"

subsection \<open>\<open>charFrequencyMap\<close>\<close>

text \<open>
  The object \<open>map\<close> is an association list; a key is one code point.
  \<open>map[ch] || 0\<close> is \<open>0\<close> for a key that is absent (and for a count of \<open>0\<close>).
  \<open>AList.update\<close> overwrites the entry of a key that is present and appends the
  entry of a new key. The list has the entries in the order of their first
  insertion; the runtime enumerates the keys that are array indices (\<open>"0"\<close> to
  \<open>"9"\<close> here) first and in ascending order, then the others in insertion order.
  The order of enumeration is not modelled: only the entries and their number are
  used below.
\<close>

type_synonym freqmap = "(jsstring \<times> nat) list"

definition orZero :: "nat option \<Rightarrow> nat" where
  "orZero v = (case v of None \<Rightarrow> 0 | Some n \<Rightarrow> n)"

fun charFrequencyLoop :: "freqmap \<Rightarrow> jsstring list \<Rightarrow> freqmap" where
  "charFrequencyLoop m [] = m"
| "charFrequencyLoop m (ch # chs) =
     charFrequencyLoop (AList.update ch (orZero (map_of m ch) + 1) m) chs"

definition charFrequencyMap :: "jsstring \<Rightarrow> freqmap" where
  "charFrequencyMap value = charFrequencyLoop [] (codePoints value)"

text \<open>\<open>Object.keys(freq)\<close>: the keys of the object, of which the source takes the number.\<close>

definition objectKeys :: "freqmap \<Rightarrow> jsstring list" where
  "objectKeys m = map fst m"

subsection \<open>\<open>isPalindrome\<close>\<close>

text \<open>
  \<open>value.replace(/\s+/g, "")\<close> deletes every maximal run of whitespace;
  \<open>split("")\<close> cuts a string into its code units, \<open>join("")\<close> concatenates.
\<close>

function replaceWhiteSpaceRuns :: "jsstring \<Rightarrow> jsstring" where
  "replaceWhiteSpaceRuns [] = []"
| "replaceWhiteSpaceRuns (c # cs) =
     (if isWhiteSpace c then replaceWhiteSpaceRuns (dropWhile isWhiteSpace cs)
      else c # replaceWhiteSpaceRuns cs)"
  by pat_completeness auto
termination
  by (relation "measure length") (auto simp: less_Suc_eq_le length_dropWhile_le)

definition splitUnits :: "jsstring \<Rightarrow> jsstring list" where
  "splitUnits s = map (\<lambda>c. [c]) s"

definition isPalindrome :: "(jsstring \<Rightarrow> jsstring) \<Rightarrow> jsstring \<Rightarrow> bool" where
  "isPalindrome toLowerCase value =
     (let normalized = toLowerCase (replaceWhiteSpaceRuns value);
          reversed = concat (rev (splitUnits normalized))
      in normalized = reversed)"

subsection \<open>\<open>wordCount\<close>\<close>

text \<open>
  \<open>split(/\s+/)\<close>: the pieces between the maximal runs of whitespace; a run at
  the start or at the end leaves an empty piece there.
\<close>

function splitWhiteSpace :: "jsstring \<Rightarrow> jsstring \<Rightarrow> jsstring list" where
  "splitWhiteSpace piece [] = [piece]"
| "splitWhiteSpace piece (c # cs) =
     (if isWhiteSpace c then piece # splitWhiteSpace [] (dropWhile isWhiteSpace cs)
      else splitWhiteSpace (piece @ [c]) cs)"
  by pat_completeness auto
termination
  by (relation "measure (\<lambda>(piece, s). length s)") (auto simp: less_Suc_eq_le length_dropWhile_le)

definition wordCount :: "jsstring \<Rightarrow> nat" where
  "wordCount value =
     (if value = [] \<or> trim value = [] then 0
      else length (splitWhiteSpace [] (trim value)))"

subsection \<open>\<open>analyze\<close>\<close>

record properties =
  p_length :: nat
  p_is_palindrome :: bool
  p_unique_characters :: nat
  p_word_count :: nat
  p_sha256_hash :: jsstring
  p_character_frequency_map :: freqmap

definition analyze ::
  "(byte list \<Rightarrow> byte list) \<Rightarrow> (jsstring \<Rightarrow> jsstring) \<Rightarrow> jsvalue \<Rightarrow> error + properties" where
  "analyze sha256 toLowerCase v =
     (case v of
        JNotString \<Rightarrow> Inl TypeError
      | JString value \<Rightarrow>
          (let hash = sha256Hex sha256 value;
               freq = charFrequencyMap value;
               unique = length (objectKeys freq);
               words = wordCount value;
               pal = isPalindrome toLowerCase value
           in Inr \<lparr> p_length = length value,
                    p_is_palindrome = pal,
                    p_unique_characters = unique,
                    p_word_count = words,
                    p_sha256_hash = hash,
                    p_character_frequency_map = freq \<rparr>))"

section \<open>JavaScript numbers\<close>

text \<open>
  A Number is an IEEE 754 double. The source only makes integers: \<open>parseInt\<close> of a
  decimal numeral, \<open>n + 1\<close>, \<open>n - 1\<close> and the literal \<open>1\<close>. \<open>Num x\<close> is the double
  whose value is the integer \<open>x\<close>; \<open>toNumber\<close> rounds an integer to the nearest
  double (53 bits of significand, ties to even, overflow to infinity), which is what
  \<open>parseInt\<close> and the arithmetic do with their exact result.
\<close>

datatype jsnum = Num int | PosInfinity | NegInfinity | NaN

function bitLength :: "nat \<Rightarrow> nat" where
  "bitLength n = (if n = 0 then 0 else Suc (bitLength (n div 2)))"
  by pat_completeness auto
termination
  by (relation "measure id") auto

declare bitLength.simps [simp del]

definition toNumber :: "int \<Rightarrow> jsnum" where
  "toNumber x =
     (let a = nat \<bar>x\<bar> in
      if a \<le> 2 ^ 53 then Num x
      else
        let e = bitLength a - 53;
            q = a div 2 ^ e;
            r = a mod 2 ^ e;
            h = 2 ^ (e - 1);
            m = (if h < r \<or> (r = h \<and> odd q) then q + 1 else q);
            v = m * 2 ^ e
        in if 2 ^ 1024 \<le> v then (if x < 0 then NegInfinity else PosInfinity)
           else Num (if x < 0 then - int v else int v))"

text \<open>\<open>n + k\<close> for a Number \<open>n\<close> and a small integer \<open>k\<close> (\<open>k\<close> is 1 or -1 in the source).\<close>

definition jsPlus :: "jsnum \<Rightarrow> int \<Rightarrow> jsnum" where
  "jsPlus n k = (case n of Num x \<Rightarrow> toNumber (x + k) | _ \<Rightarrow> n)"

definition digitValue :: "codeunit \<Rightarrow> nat" where
  "digitValue c = unat c - 0x30"

definition digitsValue :: "jsstring \<Rightarrow> nat" where
  "digitsValue ds = foldl (\<lambda>n c. 10 * n + digitValue c) 0 ds"

text \<open>
  \<open>parseInt(s, 10)\<close>: leading whitespace is skipped, one sign is read, then the
  longest run of decimal digits; no digit gives \<open>NaN\<close>.
\<close>

definition parseInt :: "jsstring \<Rightarrow> jsnum" where
  "parseInt s =
     (let t = dropWhile isWhiteSpace s;
          negative = (case t of [] \<Rightarrow> False | c # _ \<Rightarrow> c = 0x2D);
          u = (case t of [] \<Rightarrow> [] | c # cs \<Rightarrow> if c = 0x2B \<or> c = 0x2D then cs else t);
          z = takeWhile isDigit u
      in if z = [] then NaN
         else toNumber (if negative then - int (digitsValue z) else int (digitsValue z)))"

definition isNaN :: "jsnum \<Rightarrow> bool" where
  "isNaN n \<longleftrightarrow> n = NaN"

section \<open>Regular expressions\<close>

text \<open>
  A pattern is a backtracking matcher: from a position of the input (the code unit
  before it, the rest of the input, the captures so far) it gives the positions at
  which a match of the pattern can end, in the order in which the engine tries them.
  \<open>exec\<close>, \<open>match\<close> and \<open>test\<close> without the \<open>g\<close> flag take the first end at the
  leftmost start that has one.
\<close>

type_synonym mstate = "codeunit option \<times> jsstring \<times> (nat \<times> jsstring) list"
type_synonym regex = "mstate \<Rightarrow> mstate list"

text \<open>
  Two code units are the same under the \<open>i\<close> flag (without \<open>u\<close>) when their upper
  case is the same; a non-ASCII code unit never equals an ASCII one this way.
\<close>

definition sameChar :: "bool \<Rightarrow> codeunit \<Rightarrow> codeunit \<Rightarrow> bool" where
  "sameChar ignoreCase p c = (if ignoreCase then upperAscii p = upperAscii c else p = c)"

fun reChar :: "(codeunit \<Rightarrow> bool) \<Rightarrow> regex" where
  "reChar P (prev, [], caps) = []"
| "reChar P (prev, c # cs, caps) = (if P c then [(Some c, cs, caps)] else [])"

fun reLit :: "bool \<Rightarrow> jsstring \<Rightarrow> regex" where
  "reLit i [] st = [st]"
| "reLit i (p # ps) (prev, [], caps) = []"
| "reLit i (p # ps) (prev, c # cs, caps) =
     (if sameChar i p c then reLit i ps (Some c, cs, caps) else [])"

definition reSeq :: "regex \<Rightarrow> regex \<Rightarrow> regex" where
  "reSeq r1 r2 st = concat (map r2 (r1 st))"

definition reSeqs :: "regex list \<Rightarrow> regex" where
  "reSeqs rs = foldr reSeq rs (\<lambda>st. [st])"

definition reAlt :: "regex \<Rightarrow> regex \<Rightarrow> regex" where
  "reAlt r1 r2 st = r1 st @ r2 st"

text \<open>\<open>r?\<close> is greedy: with \<open>r\<close> first, then without.\<close>

definition reOpt :: "regex \<Rightarrow> regex" where
  "reOpt r st = r st @ [st]"

text \<open>\<open>C+\<close> for a character class \<open>C\<close> is greedy: the longest run first.\<close>

fun rePlus :: "(codeunit \<Rightarrow> bool) \<Rightarrow> regex" where
  "rePlus P (prev, [], caps) = []"
| "rePlus P (prev, c # cs, caps) =
     (if P c then rePlus P (Some c, cs, caps) @ [(Some c, cs, caps)] else [])"

text \<open>\<open>\b\<close>: exactly one of the code units before and after the position is a word character.\<close>

definition reWordBoundary :: regex where
  "reWordBoundary st =
     (case st of (prev, rest, caps) \<Rightarrow>
        let wordBefore = (case prev of None \<Rightarrow> False | Some c \<Rightarrow> isWordChar c);
            wordAfter = (case rest of [] \<Rightarrow> False | c # _ \<Rightarrow> isWordChar c)
        in if wordBefore \<noteq> wordAfter then [st] else [])"

text \<open>A capturing group records the text its pattern consumed.\<close>

definition reGroup :: "nat \<Rightarrow> regex \<Rightarrow> regex" where
  "reGroup n r st =
     (case st of (prev, rest, caps) \<Rightarrow>
        map (\<lambda>(prev', rest', caps').
               (prev', rest', (n, take (length rest - length rest') rest) # caps'))
            (r st))"

fun reSearch :: "regex \<Rightarrow> codeunit option \<Rightarrow> jsstring \<Rightarrow> mstate option" where
  "reSearch r prev [] = (case r (prev, [], []) of [] \<Rightarrow> None | m # _ \<Rightarrow> Some m)"
| "reSearch r prev (c # cs) =
     (case r (prev, c # cs, []) of [] \<Rightarrow> reSearch r (Some c) cs | m # _ \<Rightarrow> Some m)"

text \<open>\<open>q.match(r)\<close>: the captures of the first match, or \<open>null\<close>.\<close>

definition reMatch :: "regex \<Rightarrow> jsstring \<Rightarrow> (nat \<times> jsstring) list option" where
  "reMatch r s = map_option (\<lambda>(prev, rest, caps). caps) (reSearch r None s)"

definition reTest :: "regex \<Rightarrow> jsstring \<Rightarrow> bool" where
  "reTest r s \<longleftrightarrow> reMatch r s \<noteq> None"

definition isAsciiLetter :: "codeunit \<Rightarrow> bool" where
  "isAsciiLetter c \<longleftrightarrow> isLowerAscii c \<or> isUpperAscii c"

definition isDashOrSpace :: "codeunit \<Rightarrow> bool" where
  "isDashOrSpace c \<longleftrightarrow> c = 0x2D \<or> c = 0x20"

section \<open>The natural-language parser (src/unnamed/part_000)\<close>

text \<open>
  The file holds two definitions of \<open>parseNaturalLanguage\<close>: the first at lines 2-52,
  the second at lines 56-114. Both are modelled: \<open>parseNaturalLanguage\<close> is the
  first, \<open>parseNaturalLanguage2\<close> the second. The object \<open>parsed\<close> is a record of
  optional fields; a field that was never assigned is \<open>None\<close>.
\<close>

record parsed_filters =
  word_count :: "jsnum option"
  is_palindrome :: "bool option"
  min_length :: "jsnum option"
  max_length :: "jsnum option"
  contains_character :: "jsstring option"

definition emptyParsed :: parsed_filters where
  "emptyParsed = \<lparr> word_count = None, is_palindrome = None, min_length = None,
                   max_length = None, contains_character = None \<rparr>"

text \<open>\<open>Object.keys(parsed).length\<close>\<close>

definition parsedKeys :: "parsed_filters \<Rightarrow> nat" where
  "parsedKeys p =
     (if word_count p = None then 0 else 1) + (if is_palindrome p = None then 0 else 1) +
     (if min_length p = None then 0 else 1) + (if max_length p = None then 0 else 1) +
     (if contains_character p = None then 0 else 1)"

subsection \<open>First definition (lines 2-52)\<close>

text \<open>\<open>/\b(?:single[- ]?word|one[- ]?word)\b/\<close>\<close>

definition singleWordRe :: regex where
  "singleWordRe =
     reSeqs [reWordBoundary,
             reAlt (reSeqs [reLit False (js ''single''), reOpt (reChar isDashOrSpace),
                            reLit False (js ''word'')])
                   (reSeqs [reLit False (js ''one''), reOpt (reChar isDashOrSpace),
                            reLit False (js ''word'')]),
             reWordBoundary]"

text \<open>\<open>/\bpalindrom(?:e|ic)\b/\<close>\<close>

definition palindromeRe :: regex where
  "palindromeRe =
     reSeqs [reWordBoundary, reLit False (js ''palindrom''),
             reAlt (reLit False (js ''e'')) (reLit False (js ''ic'')),
             reWordBoundary]"

text \<open>\<open>/longer than (\d+)/i\<close> and \<open>/shorter than (\d+)/i\<close>\<close>

definition longerRe :: regex where
  "longerRe = reSeqs [reLit True (js ''longer than ''), reGroup 1 (rePlus isDigit)]"

definition shorterRe :: regex where
  "shorterRe = reSeqs [reLit True (js ''shorter than ''), reGroup 1 (rePlus isDigit)]"

text \<open>
  \<open>/(?:containing the letter|containing|contains) ([a-z])/i\<close>; under the \<open>i\<close> flag
  the class \<open>[a-z]\<close> is \<open>[A-Za-z]\<close>.
\<close>

definition containsRe :: regex where
  "containsRe =
     reSeqs [reAlt (reLit True (js ''containing the letter''))
                   (reAlt (reLit True (js ''containing'')) (reLit True (js ''contains''))),
             reLit True (js '' ''),
             reGroup 1 (reChar isAsciiLetter)]"

text \<open>\<open>/\bfirst vowel\b/\<close>\<close>

definition firstVowelRe :: regex where
  "firstVowelRe = reSeqs [reWordBoundary, reLit False (js ''first vowel''), reWordBoundary]"

text \<open>
  The steps of the function, one per \<open>if\<close> of the source, each taking \<open>parsed\<close> and
  returning it updated. \<open>Number.isNaN(n)\<close> guards the two length rules. A non-empty
  string is truthy, so \<open>parsed.contains_character || "a"\<close> keeps a character that is
  already there.
\<close>

definition lengthRule :: "regex \<Rightarrow> int \<Rightarrow> jsstring \<Rightarrow> jsnum option" where
  "lengthRule r k q =
     (case reMatch r q of
        None \<Rightarrow> None
      | Some caps \<Rightarrow>
          (let n = parseInt (case map_of caps 1 of None \<Rightarrow> [] | Some t \<Rightarrow> t)
           in if \<not> isNaN n then Some (jsPlus n k) else None))"

definition parseNaturalLanguage ::
  "(jsstring \<Rightarrow> jsstring) \<Rightarrow> jsvalue \<Rightarrow> error + parsed_filters" where
  "parseNaturalLanguage toLowerCase v =
     (case v of
        JNotString \<Rightarrow> Inl QueryError
      | JString query \<Rightarrow>
          if trim query = [] then Inl QueryError
          else
            let q = toLowerCase query;
                p1 = (if reTest singleWordRe q then emptyParsed\<lparr>word_count := Some (Num 1)\<rparr>
                      else emptyParsed);
                p2 = (if reTest palindromeRe q then p1\<lparr>is_palindrome := Some True\<rparr> else p1);
                p3 = (case lengthRule longerRe 1 q of
                        Some n \<Rightarrow> p2\<lparr>min_length := Some n\<rparr> | None \<Rightarrow> p2);
                p4 = (case lengthRule shorterRe (- 1) q of
                        Some n \<Rightarrow> p3\<lparr>max_length := Some n\<rparr> | None \<Rightarrow> p3);
                p5 = (case reMatch containsRe q of
                        Some caps \<Rightarrow>
                          p4\<lparr>contains_character :=
                               Some (toLowerCase (case map_of caps 1 of None \<Rightarrow> [] | Some t \<Rightarrow> t))\<rparr>
                      | None \<Rightarrow> p4);
                p6 = (if reTest firstVowelRe q then
                        p5\<lparr>contains_character :=
                             Some (case contains_character p5 of
                                     None \<Rightarrow> js ''a''
                                   | Some c \<Rightarrow> if c = [] then js ''a'' else c)\<rparr>
                      else p5)
            in if parsedKeys p6 = 0 then Inl Unparseable else Inr p6)"

subsection \<open>Second definition (lines 56-114)\<close>

text \<open>\<open>/\bsingle[- ]?word\b/\<close> and \<open>/\bone[- ]word\b/\<close>\<close>

definition singleWordRe2 :: regex where
  "singleWordRe2 =
     reSeqs [reWordBoundary, reLit False (js ''single''), reOpt (reChar isDashOrSpace),
             reLit False (js ''word''), reWordBoundary]"

definition oneWordRe2 :: regex where
  "oneWordRe2 =
     reSeqs [reWordBoundary, reLit False (js ''one''), reChar isDashOrSpace,
             reLit False (js ''word''), reWordBoundary]"

text \<open>\<open>/\bpalindrom(e|ic|ic strings?)\b/\<close> and \<open>/\bpalindromic\b/\<close>\<close>

definition palindromeRe2 :: regex where
  "palindromeRe2 =
     reSeqs [reWordBoundary, reLit False (js ''palindrom''),
             reGroup 1 (reAlt (reLit False (js ''e''))
                         (reAlt (reLit False (js ''ic''))
                                (reSeqs [reLit False (js ''ic string''),
                                         reOpt (reLit False (js ''s''))]))),
             reWordBoundary]"

definition palindromicRe2 :: regex where
  "palindromicRe2 = reSeqs [reWordBoundary, reLit False (js ''palindromic''), reWordBoundary]"

text \<open>\<open>/longer than (\d+)/\<close> and \<open>/shorter than (\d+)/\<close>\<close>

definition longerRe2 :: regex where
  "longerRe2 = reSeqs [reLit False (js ''longer than ''), reGroup 1 (rePlus isDigit)]"

definition shorterRe2 :: regex where
  "shorterRe2 = reSeqs [reLit False (js ''shorter than ''), reGroup 1 (rePlus isDigit)]"

text \<open>\<open>/containing the letter (\w)|containing (\w)|contains (\w)/\<close>\<close>

definition containsRe2 :: regex where
  "containsRe2 =
     reAlt (reSeqs [reLit False (js ''containing the letter ''), reGroup 1 (reChar isWordChar)])
       (reAlt (reSeqs [reLit False (js ''containing ''), reGroup 2 (reChar isWordChar)])
              (reSeqs [reLit False (js ''contains ''), reGroup 3 (reChar isWordChar)]))"

text \<open>
  \<open>for (let i = 1; i < containsMatch.length; i++) if (containsMatch[i]) { ...; break; }\<close>:
  the first group, of the three, that took part in the match and is not empty.
\<close>

fun firstCapture :: "(nat \<times> jsstring) list \<Rightarrow> nat list \<Rightarrow> jsstring option" where
  "firstCapture caps [] = None"
| "firstCapture caps (i # is) =
     (case map_of caps i of
        Some t \<Rightarrow> if t \<noteq> [] then Some t else firstCapture caps is
      | None \<Rightarrow> firstCapture caps is)"

definition parseNaturalLanguage2 ::
  "(jsstring \<Rightarrow> jsstring) \<Rightarrow> jsvalue \<Rightarrow> error + parsed_filters" where
  "parseNaturalLanguage2 toLowerCase v =
     (case v of
        JNotString \<Rightarrow> Inl QueryError
      | JString query \<Rightarrow>
          if query = [] then Inl QueryError
          else
            let q = toLowerCase query;
                p1 = (if reTest singleWordRe2 q \<or> reTest oneWordRe2 q
                      then emptyParsed\<lparr>word_count := Some (Num 1)\<rparr> else emptyParsed);
                p2 = (if reTest palindromeRe2 q \<or> reTest palindromicRe2 q
                      then p1\<lparr>is_palindrome := Some True\<rparr> else p1);
                p3 = (case lengthRule longerRe2 1 q of
                        Some n \<Rightarrow> p2\<lparr>min_length := Some n\<rparr> | None \<Rightarrow> p2);
                p4 = (case lengthRule shorterRe2 (- 1) q of
                        Some n \<Rightarrow> p3\<lparr>max_length := Some n\<rparr> | None \<Rightarrow> p3);
                p5 = (case reMatch containsRe2 q of
                        Some caps \<Rightarrow>
                          (case firstCapture caps [1, 2, 3] of
                             Some t \<Rightarrow> p4\<lparr>contains_character := Some t\<rparr>
                           | None \<Rightarrow> p4)
                      | None \<Rightarrow> p4);
                p6 = (if reTest firstVowelRe q then p5\<lparr>contains_character := Some (js ''a'')\<rparr>
                      else p5)
            in if parsedKeys p6 = 0 then Inl Unparseable else Inr p6)"

section \<open>The store and the controller (src/unnamed/part_001)\<close>

text \<open>
  A stored document, as the schema of src/models/stringModel.js has it; \<open>created_at\<close>
  is a point in time.
\<close>

record document =
  d_id :: jsstring
  d_value :: jsstring
  d_properties :: properties
  d_created_at :: nat

type_synonym store = "document list"

text \<open>
  The query object that both handlers build. Its keys are fixed but for the last one,
  \<open>properties.character_frequency_map.${ch}\<close>, of which a query has at most one:
  \<open>mq_frequency_key\<close> is its \<open>ch\<close>, and the condition under it is always
  \<open>{ $exists: true, $gt: 0 }\<close>. \<open>mq_length_gte\<close> and \<open>mq_length_lte\<close> are the
  \<open>$gte\<close> and \<open>$lte\<close> of \<open>properties.length\<close>.
\<close>

record mongo_query =
  mq_is_palindrome :: "bool option"
  mq_length_gte :: "jsnum option"
  mq_length_lte :: "jsnum option"
  mq_word_count :: "jsnum option"
  mq_frequency_key :: "jsstring option"

definition emptyQuery :: mongo_query where
  "emptyQuery = \<lparr> mq_is_palindrome = None, mq_length_gte = None, mq_length_lte = None,
                  mq_word_count = None, mq_frequency_key = None \<rparr>"

text \<open>
  Modelled from the spec: the evaluation of a query by the store (\<open>find\<close> of MongoDB,
  behind mongoose) is not code of the repository. Section 4.4 of the spec gives the
  meaning of each criterion, which is also the meaning of the operators that the
  handlers write: equality for \<open>is_palindrome\<close> and \<open>word_count\<close>, inclusive bounds
  on \<open>length\<close>, and for the frequency key an entry that exists with a count above 0.
  All criteria present must hold. \<open>find(q).sort({ created_at: -1 })\<close> returns the
  matching documents, newest first.
\<close>

definition numEq :: "jsnum \<Rightarrow> nat \<Rightarrow> bool" where
  "numEq n k = (case n of Num x \<Rightarrow> x = int k | _ \<Rightarrow> False)"

definition numLe :: "jsnum \<Rightarrow> nat \<Rightarrow> bool" where
  "numLe n k = (case n of Num x \<Rightarrow> x \<le> int k | NegInfinity \<Rightarrow> True | _ \<Rightarrow> False)"

definition numGe :: "jsnum \<Rightarrow> nat \<Rightarrow> bool" where
  "numGe n k = (case n of Num x \<Rightarrow> int k \<le> x | PosInfinity \<Rightarrow> True | _ \<Rightarrow> False)"

definition mongoMatches :: "mongo_query \<Rightarrow> properties \<Rightarrow> bool" where
  "mongoMatches q p \<longleftrightarrow>
     (case mq_is_palindrome q of None \<Rightarrow> True | Some b \<Rightarrow> p_is_palindrome p = b) \<and>
     (case mq_length_gte q of None \<Rightarrow> True | Some n \<Rightarrow> numLe n (p_length p)) \<and>
     (case mq_length_lte q of None \<Rightarrow> True | Some n \<Rightarrow> numGe n (p_length p)) \<and>
     (case mq_word_count q of None \<Rightarrow> True | Some n \<Rightarrow> numEq n (p_word_count p)) \<and>
     (case mq_frequency_key q of
        None \<Rightarrow> True
      | Some ch \<Rightarrow>
          (case map_of (p_character_frequency_map p) ch of None \<Rightarrow> False | Some n \<Rightarrow> 0 < n))"

definition storeFind :: "mongo_query \<Rightarrow> store \<Rightarrow> document list" where
  "storeFind q docs =
     rev (sort_key d_created_at (filter (\<lambda>d. mongoMatches q (d_properties d)) docs))"

subsection \<open>\<open>createString\<close> (lines 7-45)\<close>

text \<open>
  The body's \<open>value\<close> is absent (\<open>undefined\<close> or \<open>null\<close>) or a JavaScript value;
  \<open>now\<close> is \<open>new Date()\<close>. The result is the status of the response and the store
  after the call.
\<close>

definition createString ::
  "(byte list \<Rightarrow> byte list) \<Rightarrow> (jsstring \<Rightarrow> jsstring) \<Rightarrow> nat \<Rightarrow> jsvalue option \<Rightarrow> store
     \<Rightarrow> nat \<times> store" where
  "createString sha256 toLowerCase now body docs =
     (case body of
        None \<Rightarrow> (422, docs)
      | Some JNotString \<Rightarrow> (422, docs)
      | Some (JString value) \<Rightarrow>
          (case analyze sha256 toLowerCase (JString value) of
             Inl e \<Rightarrow> (500, docs)
           | Inr props \<Rightarrow>
               (let ident = p_sha256_hash props in
                if list_ex (\<lambda>d. d_id d = ident) docs then (409, docs)
                else (201, docs @ [\<lparr> d_id = ident, d_value = value, d_properties = props,
                                      d_created_at = now \<rparr>]))))"

subsection \<open>\<open>getAllStrings\<close> (lines 81-151, the same at lines 313-383)\<close>

text \<open>
  The parameters of the query string, each a string; one that is absent is
  \<open>undefined\<close>. (A parameter given twice, which the framework hands over as an
  array, is not modelled; \<open>typeof contains_character !== "string"\<close> is false for
  every parameter here.) Each validation of the handler either answers with an error
  status or extends the query.
\<close>

record query_params =
  qp_is_palindrome :: "jsstring option"
  qp_min_length :: "jsstring option"
  qp_max_length :: "jsstring option"
  qp_word_count :: "jsstring option"
  qp_contains_character :: "jsstring option"

definition andThen :: "'e + 'a \<Rightarrow> ('a \<Rightarrow> 'e + 'b) \<Rightarrow> 'e + 'b" where
  "andThen m f = (case m of Inl e \<Rightarrow> Inl e | Inr a \<Rightarrow> f a)"

definition palindromeParam :: "nat \<Rightarrow> jsstring option \<Rightarrow> mongo_query \<Rightarrow> nat + mongo_query" where
  "palindromeParam status v q =
     (case v of
        None \<Rightarrow> Inr q
      | Some t \<Rightarrow>
          if t \<noteq> js ''true'' \<and> t \<noteq> js ''false'' then Inl status
          else Inr (q\<lparr>mq_is_palindrome := Some (t = js ''true'')\<rparr>))"

definition minLengthParam :: "nat \<Rightarrow> jsstring option \<Rightarrow> mongo_query \<Rightarrow> nat + mongo_query" where
  "minLengthParam status v q =
     (case v of
        None \<Rightarrow> Inr q
      | Some t \<Rightarrow>
          (let n = parseInt t in
           if isNaN n then Inl status else Inr (q\<lparr>mq_length_gte := Some n\<rparr>)))"

definition maxLengthParam :: "nat \<Rightarrow> jsstring option \<Rightarrow> mongo_query \<Rightarrow> nat + mongo_query" where
  "maxLengthParam status v q =
     (case v of
        None \<Rightarrow> Inr q
      | Some t \<Rightarrow>
          (let n = parseInt t in
           if isNaN n then Inl status else Inr (q\<lparr>mq_length_lte := Some n\<rparr>)))"

definition wordCountParam :: "nat \<Rightarrow> jsstring option \<Rightarrow> mongo_query \<Rightarrow> nat + mongo_query" where
  "wordCountParam status v q =
     (case v of
        None \<Rightarrow> Inr q
      | Some t \<Rightarrow>
          (let n = parseInt t in
           if isNaN n then Inl status else Inr (q\<lparr>mq_word_count := Some n\<rparr>)))"

definition containsParam ::
  "(jsstring \<Rightarrow> jsstring) \<Rightarrow> jsstring option \<Rightarrow> mongo_query \<Rightarrow> nat + mongo_query" where
  "containsParam toLowerCase v q =
     (case v of
        None \<Rightarrow> Inr q
      | Some t \<Rightarrow>
          if length t \<noteq> 1 then Inl 422
          else (let ch = toLowerCase t in Inr (q\<lparr>mq_frequency_key := Some ch\<rparr>)))"

definition getAllStringsQuery ::
  "(jsstring \<Rightarrow> jsstring) \<Rightarrow> query_params \<Rightarrow> nat + mongo_query" where
  "getAllStringsQuery toLowerCase params =
     andThen (palindromeParam 422 (qp_is_palindrome params) emptyQuery) (\<lambda>q1.
     andThen (minLengthParam 422 (qp_min_length params) q1) (\<lambda>q2.
     andThen (maxLengthParam 422 (qp_max_length params) q2) (\<lambda>q3.
     andThen (wordCountParam 422 (qp_word_count params) q3) (\<lambda>q4.
     containsParam toLowerCase (qp_contains_character params) q4))))"

text \<open>The response: an error status, or status 200 with \<open>data\<close>.\<close>

definition getAllStrings ::
  "(jsstring \<Rightarrow> jsstring) \<Rightarrow> query_params \<Rightarrow> store \<Rightarrow> nat + document list" where
  "getAllStrings toLowerCase params docs =
     andThen (getAllStringsQuery toLowerCase params) (\<lambda>q. Inr (storeFind q docs))"

subsection \<open>\<open>filterByNaturalLanguage\<close> (lines 157-206, the same at lines 389-438)\<close>

text \<open>
  \<open>Boolean(parsed.is_palindrome)\<close> of a boolean is the boolean. The character is
  lower-cased and the criterion is added only when the result is one code unit long.
  The handler is given the parser, of which the repository has two definitions.
\<close>

definition naturalLanguageQuery :: "(jsstring \<Rightarrow> jsstring) \<Rightarrow> parsed_filters \<Rightarrow> mongo_query" where
  "naturalLanguageQuery toLowerCase parsed =
     \<lparr> mq_is_palindrome = is_palindrome parsed,
       mq_length_gte = min_length parsed,
       mq_length_lte = max_length parsed,
       mq_word_count = word_count parsed,
       mq_frequency_key =
         (case contains_character parsed of
            None \<Rightarrow> None
          | Some c \<Rightarrow> (let ch = toLowerCase c in if length ch = 1 then Some ch else None)) \<rparr>"

definition filterByNaturalLanguage ::
  "((jsstring \<Rightarrow> jsstring) \<Rightarrow> jsvalue \<Rightarrow> error + parsed_filters) \<Rightarrow> (jsstring \<Rightarrow> jsstring)
     \<Rightarrow> jsstring option \<Rightarrow> store \<Rightarrow> nat + document list" where
  "filterByNaturalLanguage parse toLowerCase query docs =
     (case query of
        None \<Rightarrow> Inl 422
      | Some q \<Rightarrow>
          if q = [] then Inl 422
          else
            (case parse toLowerCase (JString q) of
               Inl Unparseable \<Rightarrow> Inl 400
             | Inl _ \<Rightarrow> Inl 500
             | Inr parsed \<Rightarrow> Inr (storeFind (naturalLanguageQuery toLowerCase parsed) docs)))"

subsection \<open>The third copy of the controller (lines 465-690)\<close>

text \<open>
  The third copy answers 400 where the first two answer 422, and it does not
  lower-case the character: \<open>getAllStrings\<close> at lines 544-614,
  \<open>filterByNaturalLanguage\<close> at lines 620-664.
\<close>

definition containsParam3 :: "jsstring option \<Rightarrow> mongo_query \<Rightarrow> nat + mongo_query" where
  "containsParam3 v q =
     (case v of
        None \<Rightarrow> Inr q
      | Some t \<Rightarrow>
          if length t \<noteq> 1 then Inl 400
          else Inr (q\<lparr>mq_frequency_key := Some t\<rparr>))"

definition getAllStringsQuery3 :: "query_params \<Rightarrow> nat + mongo_query" where
  "getAllStringsQuery3 params =
     andThen (palindromeParam 400 (qp_is_palindrome params) emptyQuery) (\<lambda>q1.
     andThen (minLengthParam 400 (qp_min_length params) q1) (\<lambda>q2.
     andThen (maxLengthParam 400 (qp_max_length params) q2) (\<lambda>q3.
     andThen (wordCountParam 400 (qp_word_count params) q3) (\<lambda>q4.
     containsParam3 (qp_contains_character params) q4))))"

definition getAllStrings3 :: "query_params \<Rightarrow> store \<Rightarrow> nat + document list" where
  "getAllStrings3 params docs =
     andThen (getAllStringsQuery3 params) (\<lambda>q. Inr (storeFind q docs))"

definition naturalLanguageQuery3 :: "parsed_filters \<Rightarrow> mongo_query" where
  "naturalLanguageQuery3 parsed =
     \<lparr> mq_is_palindrome = is_palindrome parsed,
       mq_length_gte = min_length parsed,
       mq_length_lte = max_length parsed,
       mq_word_count = word_count parsed,
       mq_frequency_key = contains_character parsed \<rparr>"

definition filterByNaturalLanguage3 ::
  "((jsstring \<Rightarrow> jsstring) \<Rightarrow> jsvalue \<Rightarrow> error + parsed_filters) \<Rightarrow> (jsstring \<Rightarrow> jsstring)
     \<Rightarrow> jsstring option \<Rightarrow> store \<Rightarrow> nat + document list" where
  "filterByNaturalLanguage3 parse toLowerCase query docs =
     (case query of
        None \<Rightarrow> Inl 400
      | Some q \<Rightarrow>
          if q = [] then Inl 400
          else
            (case parse toLowerCase (JString q) of
               Inl Unparseable \<Rightarrow> Inl 400
             | Inl _ \<Rightarrow> Inl 500
             | Inr parsed \<Rightarrow> Inr (storeFind (naturalLanguageQuery3 parsed) docs)))"

section \<open>Notions used in the statements and proofs\<close>

text \<open>The input starts with the literal (up to case, under the \<open>i\<close> flag).\<close>

definition litPrefix :: "bool \<Rightarrow> jsstring \<Rightarrow> jsstring \<Rightarrow> bool" where
  "litPrefix i ps s \<longleftrightarrow> length ps \<le> length s \<and> list_all2 (sameChar i) ps (take (length ps) s)"

text \<open>Some suffix of the input, the empty one included, has the property.\<close>

fun anySuffix :: "(jsstring \<Rightarrow> bool) \<Rightarrow> jsstring \<Rightarrow> bool" where
  "anySuffix Q [] = Q []"
| "anySuffix Q (c # cs) = (Q (c # cs) \<or> anySuffix Q cs)"

text \<open>The pattern has a match in \<open>pre @ t\<close> that starts inside \<open>pre\<close>.\<close>

fun startsIn :: "regex \<Rightarrow> codeunit option \<Rightarrow> jsstring \<Rightarrow> jsstring \<Rightarrow> bool" where
  "startsIn r prev [] t = False"
| "startsIn r prev (c # cs) t = (r (prev, c # cs @ t, []) \<noteq> [] \<or> startsIn r (Some c) cs t)"

text \<open>Some rule of the parser matches the lower-cased sentence.\<close>

definition anyRuleMatches :: "jsstring \<Rightarrow> bool" where
  "anyRuleMatches q \<longleftrightarrow>
     reTest singleWordRe q \<or> reTest palindromeRe q \<or> reTest longerRe q \<or>
     reTest shorterRe q \<or> reTest containsRe q \<or> reTest firstVowelRe q"

definition anyRuleMatches2 :: "jsstring \<Rightarrow> bool" where
  "anyRuleMatches2 q \<longleftrightarrow>
     reTest singleWordRe2 q \<or> reTest oneWordRe2 q \<or> reTest palindromeRe2 q \<or>
     reTest palindromicRe2 q \<or> reTest longerRe2 q \<or> reTest shorterRe2 q \<or>
     reTest containsRe2 q \<or> reTest firstVowelRe q"

text \<open>
  The object \<open>parsed\<close> that each definition of the parser has built when it reaches
  its last test, written field by field.
\<close>

definition containsField :: "(jsstring \<Rightarrow> jsstring) \<Rightarrow> jsstring \<Rightarrow> jsstring option" where
  "containsField toLowerCase q =
     (case reMatch containsRe q of
        Some caps \<Rightarrow>
          (let c = toLowerCase (case map_of caps 1 of None \<Rightarrow> [] | Some t \<Rightarrow> t)
           in if reTest firstVowelRe q \<and> c = [] then Some (js ''a'') else Some c)
      | None \<Rightarrow> if reTest firstVowelRe q then Some (js ''a'') else None)"

definition parsedOf :: "(jsstring \<Rightarrow> jsstring) \<Rightarrow> jsstring \<Rightarrow> parsed_filters" where
  "parsedOf toLowerCase q =
     \<lparr> word_count = (if reTest singleWordRe q then Some (Num 1) else None),
       is_palindrome = (if reTest palindromeRe q then Some True else None),
       min_length = lengthRule longerRe 1 q,
       max_length = lengthRule shorterRe (- 1) q,
       contains_character = containsField toLowerCase q \<rparr>"

definition parsedOf2 :: "jsstring \<Rightarrow> parsed_filters" where
  "parsedOf2 q =
     \<lparr> word_count = (if reTest singleWordRe2 q \<or> reTest oneWordRe2 q then Some (Num 1) else None),
       is_palindrome = (if reTest palindromeRe2 q \<or> reTest palindromicRe2 q then Some True else None),
       min_length = lengthRule longerRe2 1 q,
       max_length = lengthRule shorterRe2 (- 1) q,
       contains_character =
         (if reTest firstVowelRe q then Some (js ''a'')
          else case reMatch containsRe2 q of
                 Some caps \<Rightarrow> firstCapture caps [1, 2, 3]
               | None \<Rightarrow> None) \<rparr>"

text \<open>
  What both parsers return: no number is \<open>NaN\<close>, and the character is one ASCII
  code unit.
\<close>

definition wellFormed :: "parsed_filters \<Rightarrow> bool" where
  "wellFormed p \<longleftrightarrow>
     word_count p \<noteq> Some NaN \<and> min_length p \<noteq> Some NaN \<and> max_length p \<noteq> Some NaN \<and>
     (case contains_character p of None \<Rightarrow> True | Some c \<Rightarrow> length c = 1 \<and> list_all isAscii c)"

text \<open>
  Explicit parameters that carry the same field values as a parsed object: the same
  boolean written \<open>true\<close> or \<open>false\<close>, numerals that \<open>parseInt\<close> reads as the same
  numbers, the same character; a field absent on one side is absent on the other.
\<close>

definition sameFieldValues :: "query_params \<Rightarrow> parsed_filters \<Rightarrow> bool" where
  "sameFieldValues params p \<longleftrightarrow>
     qp_is_palindrome params =
       map_option (\<lambda>b. if b then js ''true'' else js ''false'') (is_palindrome p) \<and>
     rel_option (\<lambda>t n. parseInt t = n) (qp_min_length params) (min_length p) \<and>
     rel_option (\<lambda>t n. parseInt t = n) (qp_max_length params) (max_length p) \<and>
     rel_option (\<lambda>t n. parseInt t = n) (qp_word_count params) (word_count p) \<and>
     qp_contains_character params = contains_character p"

definition emptyParams :: query_params where
  "emptyParams = \<lparr> qp_is_palindrome = None, qp_min_length = None, qp_max_length = None,
                   qp_word_count = None, qp_contains_character = None \<rparr>"

section \<open>Properties of the analyzer\<close>

lemma filter_dropWhile_not:
  "filter (\<lambda>x. \<not> P x) (dropWhile P xs) = filter (\<lambda>x. \<not> P x) xs"
  by (induction xs) auto

lemma replaceWhiteSpaceRuns_filter:
  "replaceWhiteSpaceRuns s = filter (\<lambda>c. \<not> isWhiteSpace c) s"
  by (induction s rule: replaceWhiteSpaceRuns.induct) (auto simp: filter_dropWhile_not)

lemma concat_rev_splitUnits: "concat (rev (splitUnits s)) = rev s"
  by (induction s) (auto simp: splitUnits_def)

lemma isPalindrome_iff:
  "isPalindrome toLowerCase value \<longleftrightarrow>
     toLowerCase (filter (\<lambda>c. \<not> isWhiteSpace c) value) =
       rev (toLowerCase (filter (\<lambda>c. \<not> isWhiteSpace c) value))"
  by (simp add: isPalindrome_def Let_def replaceWhiteSpaceRuns_filter concat_rev_splitUnits)

lemma ascii_lowering_toLowerCaseAscii: "ascii_lowering toLowerCaseAscii"
  by (simp add: ascii_lowering_def toLowerCaseAscii_def)

lemma ascii_lowering_apply:
  "ascii_lowering toLowerCase \<Longrightarrow> list_all isAscii s \<Longrightarrow> toLowerCase s = map lowerAscii s"
  by (simp add: ascii_lowering_def)

lemma analyze_string:
  "analyze sha256 toLowerCase (JString s) =
     Inr \<lparr> p_length = length s,
           p_is_palindrome = isPalindrome toLowerCase s,
           p_unique_characters = length (objectKeys (charFrequencyMap s)),
           p_word_count = wordCount s,
           p_sha256_hash = sha256Hex sha256 s,
           p_character_frequency_map = charFrequencyMap s \<rparr>"
  by (simp add: analyze_def Let_def)

subsection \<open>Palindromes\<close>

lemma palindrome_a_man_a_man:
  assumes "ascii_lowering toLowerCase"
  shows "\<not> isPalindrome toLowerCase (js ''A man a man'')"
proof -
  have strip: "filter (\<lambda>c. \<not> isWhiteSpace c) (js ''A man a man'') = js ''Amanaman''"
    by (simp add: js_def isWhiteSpace_def)
  have "list_all isAscii (js ''Amanaman'')"
    by (simp add: js_def isAscii_def)
  then have "toLowerCase (js ''Amanaman'') = map lowerAscii (js ''Amanaman'')"
    by (rule ascii_lowering_apply [OF assms])
  also have "\<dots> = js ''amanaman''"
    by (simp add: js_def lowerAscii_def isUpperAscii_def)
  finally have low: "toLowerCase (js ''Amanaman'') = js ''amanaman''" .
  show ?thesis
    unfolding isPalindrome_iff strip low by (simp add: js_def)
qed

lemma palindrome_hello:
  assumes "ascii_lowering toLowerCase"
  shows "\<not> isPalindrome toLowerCase (js ''Hello'')"
proof -
  have strip: "filter (\<lambda>c. \<not> isWhiteSpace c) (js ''Hello'') = js ''Hello''"
    by (simp add: js_def isWhiteSpace_def)
  have "list_all isAscii (js ''Hello'')"
    by (simp add: js_def isAscii_def)
  then have "toLowerCase (js ''Hello'') = map lowerAscii (js ''Hello'')"
    by (rule ascii_lowering_apply [OF assms])
  also have "\<dots> = js ''hello''"
    by (simp add: js_def lowerAscii_def isUpperAscii_def)
  finally have low: "toLowerCase (js ''Hello'') = js ''hello''" .
  show ?thesis
    unfolding isPalindrome_iff strip low by (simp add: js_def)
qed

lemma palindrome_empty:
  assumes "ascii_lowering toLowerCase"
  shows "isPalindrome toLowerCase []"
proof -
  have "toLowerCase [] = []"
    using ascii_lowering_apply [OF assms, of "[]"] by simp
  then show ?thesis
    by (simp add: isPalindrome_iff)
qed

text \<open>
  C6, as the spec states it, fails at its own example: \<open>"A man a man"\<close> without its
  whitespace and in lower case is \<open>"amanaman"\<close>, whose reversal is \<open>"namanama"\<close>, so
  the analyzer reports \<open>is_palindrome = false\<close> where the spec says \<open>true\<close>.
\<close>

theorem C6_a_man_a_man_counterexample:
  "map_sum id p_is_palindrome
     (analyze id toLowerCaseAscii (JString (js ''A man a man''))) = Inr False"
  using palindrome_a_man_a_man [OF ascii_lowering_toLowerCaseAscii]
  by (simp add: analyze_string)

text \<open>
  C6 (amended): for every string \<open>s\<close>, \<open>analyze(s).is_palindrome\<close> is true exactly
  when \<open>s\<close> with its whitespace code units removed (and nothing else removed), then
  lower-cased, equals its own reversal by code units; with a case mapping that lowers
  ASCII as the runtime does, \<open>analyze("A man a man").is_palindrome\<close> is false,
  \<open>analyze("Hello").is_palindrome\<close> is false and \<open>analyze("").is_palindrome\<close> is true.
\<close>

theorem C6_is_palindrome:
  "(\<exists>p. analyze sha256 toLowerCase (JString s) = Inr p \<and>
        (p_is_palindrome p \<longleftrightarrow>
           toLowerCase (filter (\<lambda>c. \<not> isWhiteSpace c) s) =
             rev (toLowerCase (filter (\<lambda>c. \<not> isWhiteSpace c) s)))) \<and>
   (ascii_lowering toLowerCase \<longrightarrow>
      map_sum id p_is_palindrome (analyze sha256 toLowerCase (JString (js ''A man a man''))) = Inr False \<and>
      map_sum id p_is_palindrome (analyze sha256 toLowerCase (JString (js ''Hello''))) = Inr False \<and>
      map_sum id p_is_palindrome (analyze sha256 toLowerCase (JString [])) = Inr True)"
  using palindrome_a_man_a_man palindrome_hello palindrome_empty
  by (simp add: analyze_string isPalindrome_iff)

theorem C6_is_palindrome_witness:
  "ascii_lowering toLowerCaseAscii \<and>
   map_sum id p_is_palindrome (analyze id toLowerCaseAscii (JString (js ''Hello''))) = Inr False \<and>
   map_sum id p_is_palindrome (analyze id toLowerCaseAscii (JString [])) = Inr True"
  using C6_is_palindrome [of id toLowerCaseAscii "[]"] ascii_lowering_toLowerCaseAscii
  by simp

subsection \<open>Length\<close>

lemma length_codePoints:
  "length s = length (codePoints s) + length (filter (\<lambda>ch. length ch = 2) (codePoints s))"
  by (induction s rule: codePoints.induct) auto

text \<open>
  C8, as the spec states it, fails on a character outside the Basic Multilingual
  Plane: U+1F600 is one code point and two UTF-16 code units, and \<open>value.length\<close>
  is 2.
\<close>

theorem C8_length_counterexample:
  "map_sum id p_length (analyze id toLowerCaseAscii (JString [0xD83D, 0xDE00])) = Inr 2 \<and>
   length (codePoints [0xD83D, 0xDE00]) = 1"
  by (simp add: analyze_string isLeadSurrogate_def isTrailSurrogate_def)

text \<open>
  C8 (amended): for every string \<open>s\<close>, \<open>analyze(s).length\<close> is the number of UTF-16
  code units of \<open>s\<close>, that is the number of code points of \<open>s\<close> plus the number of
  code points written as a surrogate pair.
\<close>

theorem C8_length:
  "\<exists>p. analyze sha256 toLowerCase (JString s) = Inr p \<and>
       p_length p = length s \<and>
       p_length p =
         length (codePoints s) + length (filter (\<lambda>ch. length ch = 2) (codePoints s))"
  using length_codePoints [of s] by (simp add: analyze_string)

subsection \<open>The frequency map\<close>

lemma sum_list_update_count:
  "sum_list (map snd (AList.update k (Suc (orZero (map_of m k))) m)) = Suc (sum_list (map snd m))"
  by (induction m) (auto simp: orZero_def)

lemma sum_list_charFrequencyLoop:
  "sum_list (map snd (charFrequencyLoop m chs)) = sum_list (map snd m) + length chs"
  by (induction chs arbitrary: m) (auto simp: sum_list_update_count)

lemma positive_update:
  "list_all (\<lambda>(k, n). 0 < n) m \<Longrightarrow> 0 < v \<Longrightarrow> list_all (\<lambda>(k, n). 0 < n) (AList.update k v m)"
  by (induction m) auto

lemma positive_charFrequencyLoop:
  "list_all (\<lambda>(k, n). 0 < n) m \<Longrightarrow> list_all (\<lambda>(k, n). 0 < n) (charFrequencyLoop m chs)"
  by (induction chs arbitrary: m) (auto simp: positive_update)

lemma distinct_charFrequencyLoop:
  "distinct (map fst m) \<Longrightarrow> distinct (map fst (charFrequencyLoop m chs))"
  by (induction chs arbitrary: m) (auto simp: distinct_update)

lemma keys_charFrequencyLoop:
  "set (map fst (charFrequencyLoop m chs)) = set (map fst m) \<union> set chs"
  by (induction chs arbitrary: m) (auto simp: dom_update)

lemma map_of_charFrequencyLoop:
  "map_of (charFrequencyLoop m chs) k =
     (if k \<in> set chs then Some (orZero (map_of m k) + count_list chs k) else map_of m k)"
  by (induction chs arbitrary: m) (auto simp: update_conv' orZero_def)

text \<open>
  C10: for every string \<open>s\<close>, in \<open>analyze(s)\<close> the field \<open>unique_characters\<close> is the
  number of distinct keys of \<open>character_frequency_map\<close> (the keys are the code points
  of \<open>s\<close>, each once), every count is strictly positive (it is the number of
  occurrences of the code point in \<open>s\<close>), and the counts sum to the number of code
  points of \<open>s\<close>.
\<close>

theorem C10_frequency_map_consistent:
  "\<exists>p. analyze sha256 toLowerCase (JString s) = Inr p \<and>
       distinct (objectKeys (p_character_frequency_map p)) \<and>
       set (objectKeys (p_character_frequency_map p)) = set (codePoints s) \<and>
       p_unique_characters p = card (set (objectKeys (p_character_frequency_map p))) \<and>
       (\<forall>(k, n) \<in> set (p_character_frequency_map p). 0 < n) \<and>
       (\<forall>ch \<in> set (codePoints s).
          map_of (p_character_frequency_map p) ch = Some (count_list (codePoints s) ch)) \<and>
       sum_list (map snd (p_character_frequency_map p)) = length (codePoints s)"
proof -
  let ?m = "charFrequencyMap s"
  have d: "distinct (objectKeys ?m)"
    using distinct_charFrequencyLoop [of "[]" "codePoints s"]
    by (simp add: charFrequencyMap_def objectKeys_def)
  have k: "set (objectKeys ?m) = set (codePoints s)"
    using keys_charFrequencyLoop [of "[]" "codePoints s"]
    by (simp add: charFrequencyMap_def objectKeys_def)
  have u: "length (objectKeys ?m) = card (set (objectKeys ?m))"
    using d by (simp add: distinct_card)
  have "list_all (\<lambda>(k, n). 0 < n) ?m"
    using positive_charFrequencyLoop [of "[]" "codePoints s"]
    by (simp add: charFrequencyMap_def)
  then have p: "\<forall>(k, n) \<in> set ?m. 0 < n"
    by (simp add: list_all_iff)
  have t: "sum_list (map snd ?m) = length (codePoints s)"
    using sum_list_charFrequencyLoop [of "[]" "codePoints s"]
    by (simp add: charFrequencyMap_def)
  have c: "\<forall>ch \<in> set (codePoints s). map_of ?m ch = Some (count_list (codePoints s) ch)"
    by (simp add: charFrequencyMap_def map_of_charFrequencyLoop orZero_def)
  show ?thesis
    using d k u p c t by (simp add: analyze_string)
qed

theorem C10_frequency_map_consistent_witness:
  "\<exists>p. analyze id toLowerCaseAscii (JString (js ''Aa'')) = Inr p \<and>
       p_character_frequency_map p = [(js ''A'', 1), (js ''a'', 1)] \<and>
       p_unique_characters p = 2 \<and>
       p_unique_characters p = card (set (objectKeys (p_character_frequency_map p))) \<and>
       (\<forall>(k, n) \<in> set (p_character_frequency_map p). 0 < n) \<and>
       sum_list (map snd (p_character_frequency_map p)) = length (codePoints (js ''Aa''))"
proof -
  have m: "charFrequencyMap (js ''Aa'') = [(js ''A'', 1), (js ''a'', 1)]"
    by (simp add: charFrequencyMap_def js_def isLeadSurrogate_def orZero_def)
  from C10_frequency_map_consistent [of id toLowerCaseAscii "js ''Aa''"]
  show ?thesis
    using m by (auto simp: analyze_string objectKeys_def)
qed

subsection \<open>Determinism\<close>

text \<open>
  C9: \<open>analyze\<close> and \<open>sha256Hex\<close> read nothing but their argument (and the runtime's
  hash and case mapping, which are functions of their input): the source keeps no
  state between calls, \<open>map\<close> in \<open>charFrequencyMap\<close> is a fresh object on every call.
  So two invocations on the same string return the same Properties and the same
  identifier, and every string has a result.
\<close>

theorem C9_deterministic:
  "s = t \<Longrightarrow>
     (\<exists>p. analyze sha256 toLowerCase (JString s) = Inr p \<and>
          analyze sha256 toLowerCase (JString t) = Inr p) \<and>
     sha256Hex sha256 s = sha256Hex sha256 t"
  by (simp add: analyze_string)

theorem C9_deterministic_witness:
  "js ''Aa'' = js ''Aa'' \<and>
   (\<exists>p. analyze id toLowerCaseAscii (JString (js ''Aa'')) = Inr p \<and>
        analyze id toLowerCaseAscii (JString (js ''Aa'')) = Inr p) \<and>
   sha256Hex id (js ''Aa'') = sha256Hex id (js ''Aa'')"
  using C9_deterministic [of "js ''Aa''" "js ''Aa''" id toLowerCaseAscii] by simp

section \<open>Properties of characters, numbers and regular expressions\<close>

lemmas char_defs = isWhiteSpace_def isDigit_def isUpperAscii_def isLowerAscii_def isWordChar_def
  isAscii_def lowerAscii_def upperAscii_def isAsciiLetter_def isDashOrSpace_def sameChar_def

lemma litPrefix_Nil [simp]: "litPrefix i [] s"
  by (simp add: litPrefix_def)

lemma litPrefix_Cons_Nil [simp]: "\<not> litPrefix i (p # ps) []"
  by (simp add: litPrefix_def)

lemma litPrefix_Cons_Cons [simp]:
  "litPrefix i (p # ps) (c # cs) \<longleftrightarrow> sameChar i p c \<and> litPrefix i ps cs"
  by (auto simp: litPrefix_def)

lemma reLit_rest:
  "reLit i ps (prev, s, caps) =
     (if litPrefix i ps s
      then [(if ps = [] then prev else Some (s ! (length ps - 1)), drop (length ps) s, caps)]
      else [])"
proof (induction ps arbitrary: prev s)
  case Nil
  then show ?case by simp
next
  case (Cons p ps)
  show ?case
  proof (cases s)
    case Nil
    then show ?thesis by simp
  next
    case (Cons c cs)
    then show ?thesis
      using Cons.IH [of "Some c" cs] by (cases ps) auto
  qed
qed

lemma litPrefix_append:
  "length ps \<le> length s \<Longrightarrow> litPrefix i ps (s @ t) \<longleftrightarrow> litPrefix i ps s"
  by (simp add: litPrefix_def)

lemma rePlus_Nil_iff:
  "rePlus P (prev, s, caps) = [] \<longleftrightarrow> (case s of [] \<Rightarrow> True | c # _ \<Rightarrow> \<not> P c)"
  by (cases s) auto

lemma rePlus_Cons:
  "P c \<Longrightarrow> rePlus P (prev, c # cs, caps) = rePlus P (Some c, cs, caps) @ [(Some c, cs, caps)]"
  by simp

lemma rePlus_hd:
  "P c \<Longrightarrow> hd (rePlus P (prev, c # cs, caps)) =
     (Some (last (c # takeWhile P cs)), dropWhile P cs, caps)"
proof (induction cs arbitrary: prev c)
  case Nil
  then show ?case by simp
next
  case (Cons d ds)
  show ?case
  proof (cases "P d")
    case True
    have ne: "rePlus P (Some c, d # ds, caps) \<noteq> []"
      using True by simp
    have "hd (rePlus P (prev, c # d # ds, caps)) = hd (rePlus P (Some c, d # ds, caps))"
      unfolding rePlus_Cons [of P c prev "d # ds" caps, OF Cons.prems] using ne by (rule hd_append2)
    also have "\<dots> = (Some (last (d # takeWhile P ds)), dropWhile P ds, caps)"
      by (rule Cons.IH [OF True])
    finally show ?thesis
      using True by simp
  next
    case False
    then show ?thesis using Cons.prems by simp
  qed
qed

lemma digit_not_ws: "isDigit c \<Longrightarrow> \<not> isWhiteSpace c"
  unfolding char_defs by unat_arith

lemma digit_not_sign: "isDigit c \<Longrightarrow> c \<noteq> 0x2B \<and> c \<noteq> 0x2D"
  unfolding char_defs by unat_arith

lemma word_ascii: "isWordChar c \<Longrightarrow> isAscii c"
  unfolding char_defs by unat_arith

lemma letter_word: "isAsciiLetter c \<Longrightarrow> isWordChar c"
  by (auto simp: isAsciiLetter_def isWordChar_def)

lemma toNumber_not_NaN: "toNumber x \<noteq> NaN"
  by (simp add: toNumber_def Let_def)

lemma toNumber_exact: "\<bar>x\<bar> \<le> 2 ^ 53 \<Longrightarrow> toNumber x = Num x"
proof -
  assume "\<bar>x\<bar> \<le> 2 ^ 53"
  then have "nat \<bar>x\<bar> \<le> 2 ^ 53"
    by (simp add: nat_le_iff)
  then show ?thesis
    by (simp only: toNumber_def Let_def if_True)
qed

lemma jsPlus_not_NaN: "n \<noteq> NaN \<Longrightarrow> jsPlus n k \<noteq> NaN"
  by (cases n) (simp_all add: jsPlus_def toNumber_not_NaN)

lemma parseInt_digits:
  assumes "ds \<noteq> []" "list_all isDigit ds"
  shows "parseInt ds = toNumber (int (digitsValue ds))"
proof -
  from assms obtain c cs where ds: "ds = c # cs" and c: "isDigit c"
    by (cases ds) auto
  have tw: "takeWhile isDigit ds = ds"
    using assms(2) by (simp add: takeWhile_eq_all_conv list_all_iff)
  show ?thesis
    using digit_not_ws [OF c] digit_not_sign [OF c] tw
    by (simp add: parseInt_def ds Let_def)
qed

lemma take_length_dropWhile:
  "take (length xs - length (dropWhile P xs)) xs = takeWhile P xs"
proof -
  have "length xs = length (takeWhile P xs) + length (dropWhile P xs)"
    by (metis length_append takeWhile_dropWhile_id)
  then have "length xs - length (dropWhile P xs) = length (takeWhile P xs)"
    by simp
  then show ?thesis
    by (metis takeWhile_eq_take)
qed

lemma reGroup_rePlus_Nil:
  "reGroup n (rePlus P) (prev, t, caps) = [] \<longleftrightarrow> (case t of [] \<Rightarrow> True | c # _ \<Rightarrow> \<not> P c)"
  by (simp add: reGroup_def rePlus_Nil_iff)

lemma reGroup_rePlus_hd:
  assumes "P c"
  shows "hd (reGroup n (rePlus P) (prev, c # cs, caps)) =
           (Some (last (c # takeWhile P cs)), dropWhile P cs, (n, c # takeWhile P cs) # caps)"
proof -
  have ne: "rePlus P (prev, c # cs, caps) \<noteq> []"
    using assms by simp
  have "take (length (c # cs) - length (dropWhile P (c # cs))) (c # cs) = takeWhile P (c # cs)"
    by (rule take_length_dropWhile)
  then have t: "take (Suc (length cs) - length (dropWhile P cs)) (c # cs) = c # takeWhile P cs"
    using assms by simp
  show ?thesis
    unfolding reGroup_def using t rePlus_hd [of P c prev cs caps, OF assms] ne
    by (simp add: hd_map del: rePlus.simps)
qed

lemma lengthRe_eval:
  "reSeqs [reLit i L, reGroup n (rePlus P)] (prev, s, caps) =
     (if litPrefix i L s
      then reGroup n (rePlus P)
             (if L = [] then prev else Some (s ! (length L - 1)), drop (length L) s, caps)
      else [])"
  by (simp add: reSeqs_def reSeq_def reLit_rest)

lemma lengthRe_Nil:
  "reSeqs [reLit i L, reGroup n (rePlus P)] (prev, s, caps) = [] \<longleftrightarrow>
     \<not> (litPrefix i L s \<and> (case drop (length L) s of [] \<Rightarrow> False | c # _ \<Rightarrow> P c))"
  by (auto simp: lengthRe_eval reGroup_rePlus_Nil split: list.splits)

lemma lengthRe_hd:
  assumes "litPrefix i L s" "drop (length L) s = c # cs" "P c"
  shows "hd (reSeqs [reLit i L, reGroup n (rePlus P)] (prev, s, caps)) =
           (Some (last (c # takeWhile P cs)), dropWhile P cs, (n, c # takeWhile P cs) # caps)"
  using assms by (simp add: lengthRe_eval reGroup_rePlus_hd del: rePlus.simps)

lemma reSearch_Some:
  "reSearch r prev s = Some m \<Longrightarrow> \<exists>p t. r (p, t, []) \<noteq> [] \<and> m = hd (r (p, t, []))"
proof (induction s arbitrary: prev)
  case Nil
  show ?case
  proof (cases "r (prev, [], [])")
    case Nil
    with \<open>reSearch r prev [] = Some m\<close> show ?thesis by simp
  next
    case (Cons m' ms)
    with \<open>reSearch r prev [] = Some m\<close> have "m = m'" by simp
    with Cons show ?thesis
      by (intro exI [of _ prev] exI [of _ "[]"]) simp
  qed
next
  case (Cons c cs)
  show ?case
  proof (cases "r (prev, c # cs, [])")
    case Nil
    with Cons.prems have "reSearch r (Some c) cs = Some m" by simp
    then show ?thesis by (rule Cons.IH)
  next
    case (Cons m' ms)
    with Cons.prems have "m = m'" by simp
    with Cons show ?thesis
      by (intro exI [of _ prev] exI [of _ "c # cs"]) simp
  qed
qed

lemma lengthRe_match:
  assumes "reMatch (reSeqs [reLit i L, reGroup n (rePlus P)]) q = Some caps"
  shows "\<exists>ds. caps = [(n, ds)] \<and> ds \<noteq> [] \<and> list_all P ds"
proof -
  let ?r = "reSeqs [reLit i L, reGroup n (rePlus P)]"
  from assms obtain m where m: "reSearch ?r None q = Some m" and caps: "caps = snd (snd m)"
    by (auto simp: reMatch_def split: prod.splits)
  from reSearch_Some [OF m] obtain p t where ne: "?r (p, t, []) \<noteq> []" and hd: "m = hd (?r (p, t, []))"
    by blast
  from ne obtain c cs where lp: "litPrefix i L t" and d: "drop (length L) t = c # cs" and c: "P c"
    by (auto simp: lengthRe_Nil split: list.splits)
  have "m = (Some (last (c # takeWhile P cs)), dropWhile P cs, [(n, c # takeWhile P cs)])"
    unfolding hd using lp d c by (rule lengthRe_hd)
  then have "caps = [(n, c # takeWhile P cs)]"
    using caps by simp
  moreover have "list_all P (c # takeWhile P cs)"
    using c by (auto simp: list_all_iff dest: set_takeWhileD)
  ultimately show ?thesis by blast
qed

lemma lengthRule_eq:
  "lengthRule (reSeqs [reLit i L, reGroup 1 (rePlus isDigit)]) k q =
     (case reMatch (reSeqs [reLit i L, reGroup 1 (rePlus isDigit)]) q of
        None \<Rightarrow> None
      | Some caps \<Rightarrow> Some (jsPlus (toNumber (int (digitsValue (snd (hd caps))))) k))"
proof (cases "reMatch (reSeqs [reLit i L, reGroup 1 (rePlus isDigit)]) q")
  case None
  then show ?thesis by (simp add: lengthRule_def)
next
  case (Some caps)
  from lengthRe_match [OF Some] obtain ds where caps: "caps = [(1, ds)]" and ds: "ds \<noteq> []" "list_all isDigit ds"
    by blast
  show ?thesis
    using Some caps parseInt_digits [OF ds]
    by (simp add: lengthRule_def isNaN_def toNumber_not_NaN)
qed

subsection \<open>Captures\<close>

lemma reLit_caps: "st' \<in> set (reLit i L st) \<Longrightarrow> snd (snd st') = snd (snd st)"
  by (cases st) (auto simp: reLit_rest split: if_splits)

lemma reSeq_set: "set (reSeq r1 r2 st) = (\<Union>st' \<in> set (r1 st). set (r2 st'))"
  by (simp add: reSeq_def)

lemma reAlt_set: "set (reAlt r1 r2 st) = set (r1 st) \<union> set (r2 st)"
  by (simp add: reAlt_def)

lemma reGroup_reChar_states:
  assumes "st' \<in> set (reGroup n (reChar P) st)"
  shows "\<exists>c. P c \<and> snd (snd st') = (n, [c]) # snd (snd st)"
proof -
  obtain prev s caps where st: "st = (prev, s, caps)"
    by (cases st) auto
  show ?thesis
  proof (cases s)
    case Nil
    with assms st show ?thesis by (simp add: reGroup_def)
  next
    case (Cons c cs)
    with assms st show ?thesis
      by (cases "P c") (simp_all add: reGroup_def)
  qed
qed

lemma containsRe_states:
  assumes "st \<in> set (containsRe st0)"
  shows "\<exists>c. isAsciiLetter c \<and> snd (snd st) = (1, [c]) # snd (snd st0)"
proof -
  from assms obtain s1 s2 where
    s1: "s1 \<in> set (reLit True (js ''containing the letter'') st0) \<or>
         s1 \<in> set (reLit True (js ''containing'') st0) \<or>
         s1 \<in> set (reLit True (js ''contains'') st0)"
    and s2: "s2 \<in> set (reLit True (js '' '') s1)"
    and st: "st \<in> set (reGroup (Suc 0) (reChar isAsciiLetter) s2)"
    unfolding containsRe_def reSeqs_def by (fastforce simp: reSeq_set reAlt_set)
  from s1 have "snd (snd s1) = snd (snd st0)"
    by (auto dest: reLit_caps)
  moreover from s2 have "snd (snd s2) = snd (snd s1)"
    by (rule reLit_caps)
  ultimately show ?thesis
    using reGroup_reChar_states [OF st] by simp
qed

lemma containsRe2_states:
  assumes "st \<in> set (containsRe2 st0)"
  shows "\<exists>n c. (n = 1 \<or> n = 2 \<or> n = 3) \<and> isWordChar c \<and> snd (snd st) = (n, [c]) # snd (snd st0)"
proof -
  from assms obtain s1 n where
    s1: "s1 \<in> set (reLit False (js ''containing the letter '') st0) \<or>
         s1 \<in> set (reLit False (js ''containing '') st0) \<or>
         s1 \<in> set (reLit False (js ''contains '') st0)"
    and n: "n = 1 \<or> n = 2 \<or> n = 3"
    and st: "st \<in> set (reGroup n (reChar isWordChar) s1)"
    unfolding containsRe2_def reSeqs_def by (fastforce simp: reSeq_set reAlt_set)
  from s1 have "snd (snd s1) = snd (snd st0)"
    by (auto dest: reLit_caps)
  then show ?thesis
    using reGroup_reChar_states [OF st] n by auto
qed

lemma reMatch_Some:
  assumes "reMatch r q = Some caps"
  shows "\<exists>p t st. st \<in> set (r (p, t, [])) \<and> caps = snd (snd st)"
proof -
  from assms obtain m where m: "reSearch r None q = Some m" and caps: "caps = snd (snd m)"
    by (auto simp: reMatch_def split: prod.splits)
  from reSearch_Some [OF m] obtain p t where "r (p, t, []) \<noteq> []" "m = hd (r (p, t, []))"
    by blast
  then have "m \<in> set (r (p, t, []))" by simp
  with caps show ?thesis by blast
qed

lemma containsRe_match:
  "reMatch containsRe q = Some caps \<Longrightarrow> \<exists>c. isAsciiLetter c \<and> caps = [(1, [c])]"
  by (drule reMatch_Some) (auto dest: containsRe_states)

lemma containsRe2_match:
  "reMatch containsRe2 q = Some caps \<Longrightarrow>
     \<exists>n c. (n = 1 \<or> n = 2 \<or> n = 3) \<and> isWordChar c \<and> caps = [(n, [c])]"
  by (drule reMatch_Some) (auto dest: containsRe2_states)

lemma containsRe2_firstCapture:
  "reMatch containsRe2 q = Some caps \<Longrightarrow> \<exists>c. isWordChar c \<and> firstCapture caps [1, 2, 3] = Some [c]"
  by (drule containsRe2_match) auto

section \<open>Properties of the parser\<close>

lemma lengthRule_longer:
  "lengthRule longerRe k q =
     (case reMatch longerRe q of
        None \<Rightarrow> None
      | Some caps \<Rightarrow> Some (jsPlus (toNumber (int (digitsValue (snd (hd caps))))) k))"
  unfolding longerRe_def by (rule lengthRule_eq)

lemma lengthRule_shorter:
  "lengthRule shorterRe k q =
     (case reMatch shorterRe q of
        None \<Rightarrow> None
      | Some caps \<Rightarrow> Some (jsPlus (toNumber (int (digitsValue (snd (hd caps))))) k))"
  unfolding shorterRe_def by (rule lengthRule_eq)

lemma lengthRule_longer_None: "lengthRule longerRe k q = None \<longleftrightarrow> \<not> reTest longerRe q"
  by (simp add: lengthRule_longer reTest_def split: option.splits)

lemma lengthRule_shorter_None: "lengthRule shorterRe k q = None \<longleftrightarrow> \<not> reTest shorterRe q"
  by (simp add: lengthRule_shorter reTest_def split: option.splits)

lemma parse_normal_form:
  "parseNaturalLanguage toLowerCase (JString s) =
     (if trim s = [] then Inl QueryError
      else if parsedKeys (parsedOf toLowerCase (toLowerCase s)) = 0 then Inl Unparseable
      else Inr (parsedOf toLowerCase (toLowerCase s)))"
proof -
  let ?q = "toLowerCase s"
  have "(let p1 = (if reTest singleWordRe ?q then emptyParsed\<lparr>word_count := Some (Num 1)\<rparr>
                      else emptyParsed);
                p2 = (if reTest palindromeRe ?q then p1\<lparr>is_palindrome := Some True\<rparr> else p1);
                p3 = (case lengthRule longerRe 1 ?q of
                        Some n \<Rightarrow> p2\<lparr>min_length := Some n\<rparr> | None \<Rightarrow> p2);
                p4 = (case lengthRule shorterRe (- 1) ?q of
                        Some n \<Rightarrow> p3\<lparr>max_length := Some n\<rparr> | None \<Rightarrow> p3);
                p5 = (case reMatch containsRe ?q of
                        Some caps \<Rightarrow>
                          p4\<lparr>contains_character :=
                               Some (toLowerCase (case map_of caps 1 of None \<Rightarrow> [] | Some t \<Rightarrow> t))\<rparr>
                      | None \<Rightarrow> p4);
                p6 = (if reTest firstVowelRe ?q then
                        p5\<lparr>contains_character :=
                             Some (case contains_character p5 of
                                     None \<Rightarrow> js ''a''
                                   | Some c \<Rightarrow> if c = [] then js ''a'' else c)\<rparr>
                      else p5)
            in p6) = parsedOf toLowerCase ?q"
    by (simp add: Let_def parsedOf_def containsField_def emptyParsed_def split: option.splits)
  then show ?thesis
    by (simp add: parseNaturalLanguage_def Let_def)
qed

lemma parsedKeys_parsedOf:
  "parsedKeys (parsedOf toLowerCase q) = 0 \<longleftrightarrow> \<not> anyRuleMatches q"
  by (simp add: parsedKeys_def parsedOf_def containsField_def anyRuleMatches_def
      lengthRule_longer_None lengthRule_shorter_None reTest_def Let_def split: option.splits)

subsection \<open>The leftmost match of a length rule\<close>

lemma sameChar_refl: "sameChar i p p"
  by (simp add: sameChar_def)

lemma litPrefix_self: "litPrefix i L (L @ t)"
  by (induction L) (simp_all add: sameChar_refl)

lemma reSearch_hit:
  "r (prev, s, []) \<noteq> [] \<Longrightarrow> reSearch r prev s = Some (hd (r (prev, s, [])))"
  by (cases s; cases "r (prev, s, [])") simp_all

lemma reSearch_None_Cons:
  "reSearch r prev (a # s) = None \<Longrightarrow> r (prev, a # s, []) = [] \<and> reSearch r (Some a) s = None"
  by (cases "r (prev, a # s, [])") simp_all

lemma reTest_False: "\<not> reTest r s \<Longrightarrow> reSearch r None s = None"
  by (cases "reSearch r None s") (simp_all add: reTest_def reMatch_def)

lemma lengthRe_search:
  assumes "reSearch (reSeqs [reLit i L, reGroup n (rePlus P)]) prev (pre @ L) = None" and "P c"
  shows "reSearch (reSeqs [reLit i L, reGroup n (rePlus P)]) prev (pre @ L @ c # cs) =
           Some (Some (last (c # takeWhile P cs)), dropWhile P cs, [(n, c # takeWhile P cs)])"
  using assms(1)
proof (induction pre arbitrary: prev)
  case Nil
  let ?r = "reSeqs [reLit i L, reGroup n (rePlus P)]"
  have lp: "litPrefix i L (L @ c # cs)"
    by (rule litPrefix_self)
  have d: "drop (length L) (L @ c # cs) = c # cs"
    by simp
  have h: "hd (?r (prev, L @ c # cs, [])) =
             (Some (last (c # takeWhile P cs)), dropWhile P cs, [(n, c # takeWhile P cs)])"
    using lp d \<open>P c\<close> by (rule lengthRe_hd)
  have "?r (prev, L @ c # cs, []) \<noteq> []"
    using lp d \<open>P c\<close> by (simp add: lengthRe_Nil)
  then have "reSearch ?r prev (L @ c # cs) = Some (hd (?r (prev, L @ c # cs, [])))"
    by (rule reSearch_hit)
  with h show ?case by simp
next
  case (Cons a pre)
  let ?r = "reSeqs [reLit i L, reGroup n (rePlus P)]"
  from Cons.prems have none: "?r (prev, a # pre @ L, []) = []"
    and rest: "reSearch ?r (Some a) (pre @ L) = None"
    using reSearch_None_Cons [of ?r prev a "pre @ L"] by simp_all
  have len: "length L \<le> length (a # pre @ L)" by simp
  have lp: "litPrefix i L ((a # pre @ L) @ c # cs) \<longleftrightarrow> litPrefix i L (a # pre @ L)"
    using len by (rule litPrefix_append)
  have "drop (length L) (a # pre @ L) \<noteq> []" by simp
  then obtain d ds where dd: "drop (length L) (a # pre @ L) = d # ds"
    by (cases "drop (length L) (a # pre @ L)") auto
  have "drop (length L) ((a # pre @ L) @ c # cs) =
          drop (length L) (a # pre @ L) @ drop (length L - length (a # pre @ L)) (c # cs)"
    by (rule drop_append)
  also have "length L - length (a # pre @ L) = 0"
    by simp
  finally have "drop (length L) ((a # pre @ L) @ c # cs) = drop (length L) (a # pre @ L) @ c # cs"
    by simp
  then have dd2: "drop (length L) ((a # pre @ L) @ c # cs) = d # (ds @ c # cs)"
    using dd by simp
  have "?r (prev, (a # pre @ L) @ c # cs, []) = []"
    using none unfolding lengthRe_Nil lp dd dd2 by simp
  then have "reSearch ?r prev (a # pre @ L @ c # cs) = reSearch ?r (Some a) (pre @ L @ c # cs)"
    by simp
  with Cons.IH [OF rest] show ?case by simp
qed

lemma lengthRe_match_first:
  assumes "\<not> reTest (reSeqs [reLit i L, reGroup n (rePlus P)]) (pre @ L)"
    and "ds \<noteq> []" "list_all P ds" "post = [] \<or> \<not> P (hd post)"
  shows "reMatch (reSeqs [reLit i L, reGroup n (rePlus P)]) (pre @ L @ ds @ post) = Some [(n, ds)]"
proof -
  let ?r = "reSeqs [reLit i L, reGroup n (rePlus P)]"
  from assms(2,3) obtain c cs where ds: "ds = c # cs" and c: "P c" and cs: "list_all P cs"
    by (cases ds) auto
  have tw: "takeWhile P (cs @ post) = cs"
    using cs assms(4) by (cases post) (auto simp: list_all_iff takeWhile_append2)
  from assms(1) have "reSearch ?r None (pre @ L) = None"
    by (rule reTest_False)
  from lengthRe_search [OF this c, of "cs @ post"]
  show ?thesis
    using tw by (simp add: reMatch_def ds)
qed

lemma min_length_first:
  assumes "\<not> reTest longerRe (pre @ js ''longer than '')"
    and "ds \<noteq> []" "list_all isDigit ds" "post = [] \<or> \<not> isDigit (hd post)"
    and "digitsValue ds < 2 ^ 53"
  shows "lengthRule longerRe 1 (pre @ js ''longer than '' @ ds @ post) =
           Some (Num (int (digitsValue ds) + 1))"
proof -
  have m: "reMatch longerRe (pre @ js ''longer than '' @ ds @ post) = Some [(1, ds)]"
    using assms(1-4) unfolding longerRe_def by (rule lengthRe_match_first)
  have a: "toNumber (int (digitsValue ds)) = Num (int (digitsValue ds))"
    using assms(5) by (intro toNumber_exact) simp
  have b: "toNumber (int (digitsValue ds) + 1) = Num (int (digitsValue ds) + 1)"
    using assms(5) by (intro toNumber_exact) simp
  show ?thesis
    by (simp add: lengthRule_longer m a b jsPlus_def)
qed

lemma max_length_first:
  assumes "\<not> reTest shorterRe (pre @ js ''shorter than '')"
    and "ds \<noteq> []" "list_all isDigit ds" "post = [] \<or> \<not> isDigit (hd post)"
    and "digitsValue ds < 2 ^ 53"
  shows "lengthRule shorterRe (- 1) (pre @ js ''shorter than '' @ ds @ post) =
           Some (Num (int (digitsValue ds) - 1))"
proof -
  have m: "reMatch shorterRe (pre @ js ''shorter than '' @ ds @ post) = Some [(1, ds)]"
    using assms(1-4) unfolding shorterRe_def by (rule lengthRe_match_first)
  have a: "toNumber (int (digitsValue ds)) = Num (int (digitsValue ds))"
    using assms(5) by (intro toNumber_exact) simp
  have b: "toNumber (int (digitsValue ds) - 1) = Num (int (digitsValue ds) - 1)"
    using assms(5) by (intro toNumber_exact) simp
  show ?thesis
    by (simp add: lengthRule_shorter m a b jsPlus_def)
qed

lemma parse_min_length:
  assumes "trim s \<noteq> []" "lengthRule longerRe 1 (toLowerCase s) = Some n"
  shows "\<exists>p. parseNaturalLanguage toLowerCase (JString s) = Inr p \<and> min_length p = Some n"
  using assms by (simp add: parse_normal_form parsedKeys_def parsedOf_def)

lemma parse_max_length:
  assumes "trim s \<noteq> []" "lengthRule shorterRe (- 1) (toLowerCase s) = Some n"
  shows "\<exists>p. parseNaturalLanguage toLowerCase (JString s) = Inr p \<and> max_length p = Some n"
  using assms by (simp add: parse_normal_form parsedKeys_def parsedOf_def)

subsection \<open>Sentences that a rule cannot match\<close>

lemma reSearch_None_suffix:
  assumes "\<And>prev t. r (prev, t, []) \<noteq> [] \<Longrightarrow> Q t" and "\<not> anySuffix Q s"
  shows "reSearch r prev s = None"
  using assms(2)
proof (induction s arbitrary: prev)
  case Nil
  with assms(1) [of prev "[]"] show ?case
    by (cases "r (prev, [], [])") auto
next
  case (Cons c cs)
  with assms(1) [of prev "c # cs"] have "r (prev, c # cs, []) = []" by auto
  with Cons show ?case by simp
qed

lemma reTest_False_suffix:
  assumes "\<And>prev t. r (prev, t, []) \<noteq> [] \<Longrightarrow> Q t" and "\<not> anySuffix Q s"
  shows "\<not> reTest r s"
  using reSearch_None_suffix [of r Q s None, OF assms] by (simp add: reTest_def reMatch_def)

lemma bounded_lit:
  "reSeqs (reWordBoundary # reLit i L # rs) (prev, t, caps) \<noteq> [] \<Longrightarrow> litPrefix i L t"
  by (auto simp: reSeqs_def reSeq_def reWordBoundary_def reLit_rest Let_def split: if_splits)

lemma plain_lit:
  "reSeqs (reLit i L # rs) (prev, t, caps) \<noteq> [] \<Longrightarrow> litPrefix i L t"
  by (auto simp: reSeqs_def reSeq_def reLit_rest split: if_splits)

lemma singleWordRe_lit:
  "singleWordRe (prev, t, caps) \<noteq> [] \<Longrightarrow>
     litPrefix False (js ''single'') t \<or> litPrefix False (js ''one'') t"
  by (auto simp: singleWordRe_def reSeqs_def reSeq_def reAlt_def reWordBoundary_def reLit_rest Let_def
      split: if_splits)

subsection \<open>The second definition\<close>

lemma lengthRule_longer2:
  "lengthRule longerRe2 k q =
     (case reMatch longerRe2 q of
        None \<Rightarrow> None
      | Some caps \<Rightarrow> Some (jsPlus (toNumber (int (digitsValue (snd (hd caps))))) k))"
  unfolding longerRe2_def by (rule lengthRule_eq)

lemma lengthRule_shorter2:
  "lengthRule shorterRe2 k q =
     (case reMatch shorterRe2 q of
        None \<Rightarrow> None
      | Some caps \<Rightarrow> Some (jsPlus (toNumber (int (digitsValue (snd (hd caps))))) k))"
  unfolding shorterRe2_def by (rule lengthRule_eq)

lemma lengthRule_longer2_None: "lengthRule longerRe2 k q = None \<longleftrightarrow> \<not> reTest longerRe2 q"
  by (simp add: lengthRule_longer2 reTest_def split: option.splits)

lemma lengthRule_shorter2_None: "lengthRule shorterRe2 k q = None \<longleftrightarrow> \<not> reTest shorterRe2 q"
  by (simp add: lengthRule_shorter2 reTest_def split: option.splits)

lemma parse2_normal_form:
  "parseNaturalLanguage2 toLowerCase (JString s) =
     (if s = [] then Inl QueryError
      else if parsedKeys (parsedOf2 (toLowerCase s)) = 0 then Inl Unparseable
      else Inr (parsedOf2 (toLowerCase s)))"
proof -
  let ?q = "toLowerCase s"
  have "(let p1 = (if reTest singleWordRe2 ?q \<or> reTest oneWordRe2 ?q
                      then emptyParsed\<lparr>word_count := Some (Num 1)\<rparr> else emptyParsed);
                p2 = (if reTest palindromeRe2 ?q \<or> reTest palindromicRe2 ?q
                      then p1\<lparr>is_palindrome := Some True\<rparr> else p1);
                p3 = (case lengthRule longerRe2 1 ?q of
                        Some n \<Rightarrow> p2\<lparr>min_length := Some n\<rparr> | None \<Rightarrow> p2);
                p4 = (case lengthRule shorterRe2 (- 1) ?q of
                        Some n \<Rightarrow> p3\<lparr>max_length := Some n\<rparr> | None \<Rightarrow> p3);
                p5 = (case reMatch containsRe2 ?q of
                        Some caps \<Rightarrow>
                          (case firstCapture caps [1, 2, 3] of
                             Some t \<Rightarrow> p4\<lparr>contains_character := Some t\<rparr>
                           | None \<Rightarrow> p4)
                      | None \<Rightarrow> p4);
                p6 = (if reTest firstVowelRe ?q then p5\<lparr>contains_character := Some (js ''a'')\<rparr>
                      else p5)
            in p6) = parsedOf2 ?q"
    by (simp add: Let_def parsedOf2_def emptyParsed_def split: option.splits)
  then show ?thesis
    by (simp add: parseNaturalLanguage2_def Let_def)
qed

lemma contains2_None: "reMatch containsRe2 q \<noteq> None \<Longrightarrow> firstCapture (the (reMatch containsRe2 q)) [1, 2, 3] \<noteq> None"
  using containsRe2_firstCapture [of q "the (reMatch containsRe2 q)"] by auto

lemma parsedKeys_parsedOf2:
  "parsedKeys (parsedOf2 q) = 0 \<longleftrightarrow> \<not> anyRuleMatches2 q"
  using contains2_None [of q]
  by (auto simp: parsedKeys_def parsedOf2_def anyRuleMatches2_def
      lengthRule_longer2_None lengthRule_shorter2_None reTest_def split: option.splits if_splits)

subsection \<open>What the parsers return\<close>

lemma lengthRule_not_NaN:
  "lengthRule (reSeqs [reLit i L, reGroup 1 (rePlus isDigit)]) k q \<noteq> Some NaN"
  by (subst lengthRule_eq) (simp add: jsPlus_not_NaN toNumber_not_NaN split: option.splits)

lemma a_ascii: "length (js ''a'') = 1 \<and> list_all isAscii (js ''a'')"
  by (simp add: js_def isAscii_def)

lemma letter_ascii: "isAsciiLetter c \<Longrightarrow> isAscii c"
  by (rule word_ascii) (rule letter_word)

lemma lowerAscii_ascii: "isAscii c \<Longrightarrow> isAscii (lowerAscii c)"
  unfolding char_defs by (auto simp: word_le_nat_alt word_less_nat_alt unat_word_ariths)

lemma containsField_wf:
  assumes "ascii_lowering toLowerCase"
  shows "case containsField toLowerCase q of None \<Rightarrow> True | Some c \<Rightarrow> length c = 1 \<and> list_all isAscii c"
proof (cases "reMatch containsRe q")
  case None
  then show ?thesis using a_ascii by (simp add: containsField_def)
next
  case (Some caps)
  from containsRe_match [OF Some] obtain c where c: "isAsciiLetter c" and caps: "caps = [(1, [c])]"
    by blast
  have "toLowerCase [c] = [lowerAscii c]"
    using ascii_lowering_apply [OF assms, of "[c]"] letter_ascii [OF c] by simp
  then show ?thesis
    using Some caps lowerAscii_ascii [OF letter_ascii [OF c]] by (simp add: containsField_def)
qed

lemma parsedOf_wf:
  assumes "ascii_lowering toLowerCase"
  shows "wellFormed (parsedOf toLowerCase q)"
  using containsField_wf [OF assms, of q]
    lengthRule_not_NaN [of True "js ''longer than ''" 1 q]
    lengthRule_not_NaN [of True "js ''shorter than ''" "- 1" q]
  by (simp add: wellFormed_def parsedOf_def longerRe_def shorterRe_def)

lemma parsedOf2_wf: "wellFormed (parsedOf2 q)"
proof -
  have "case contains_character (parsedOf2 q) of None \<Rightarrow> True | Some c \<Rightarrow> length c = 1 \<and> list_all isAscii c"
  proof (cases "reMatch containsRe2 q")
    case None
    then show ?thesis using a_ascii by (simp add: parsedOf2_def)
  next
    case (Some caps)
    from containsRe2_firstCapture [OF Some] obtain c where "isWordChar c" "firstCapture caps [1, 2, 3] = Some [c]"
      by blast
    then show ?thesis
      using Some a_ascii word_ascii [of c] by (simp add: parsedOf2_def)
  qed
  then show ?thesis
    using lengthRule_not_NaN [of False "js ''longer than ''" 1 q]
      lengthRule_not_NaN [of False "js ''shorter than ''" "- 1" q]
    by (simp add: wellFormed_def parsedOf2_def longerRe2_def shorterRe2_def)
qed

section \<open>Properties of the controller\<close>

lemma true_neq_false: "js ''true'' \<noteq> js ''false''"
  by (simp add: js_def)

lemma palindromeParam_same:
  "palindromeParam status (map_option (\<lambda>b. if b then js ''true'' else js ''false'') v) q =
     Inr (q\<lparr>mq_is_palindrome := (case v of None \<Rightarrow> mq_is_palindrome q | Some b \<Rightarrow> Some b)\<rparr>)"
  using true_neq_false by (cases v) (auto simp: palindromeParam_def)

lemma minLengthParam_same:
  "rel_option (\<lambda>t n. parseInt t = n) v w \<Longrightarrow> w \<noteq> Some NaN \<Longrightarrow>
     minLengthParam status v q =
       Inr (q\<lparr>mq_length_gte := (case w of None \<Rightarrow> mq_length_gte q | Some n \<Rightarrow> Some n)\<rparr>)"
  by (cases v; cases w) (auto simp: minLengthParam_def isNaN_def)

lemma maxLengthParam_same:
  "rel_option (\<lambda>t n. parseInt t = n) v w \<Longrightarrow> w \<noteq> Some NaN \<Longrightarrow>
     maxLengthParam status v q =
       Inr (q\<lparr>mq_length_lte := (case w of None \<Rightarrow> mq_length_lte q | Some n \<Rightarrow> Some n)\<rparr>)"
  by (cases v; cases w) (auto simp: maxLengthParam_def isNaN_def)

lemma wordCountParam_same:
  "rel_option (\<lambda>t n. parseInt t = n) v w \<Longrightarrow> w \<noteq> Some NaN \<Longrightarrow>
     wordCountParam status v q =
       Inr (q\<lparr>mq_word_count := (case w of None \<Rightarrow> mq_word_count q | Some n \<Rightarrow> Some n)\<rparr>)"
  by (cases v; cases w) (auto simp: wordCountParam_def isNaN_def)

lemma lower_single:
  assumes "ascii_lowering toLowerCase" "length c = 1" "list_all isAscii c"
  shows "toLowerCase c = [lowerAscii (hd c)]"
proof -
  from assms(2) obtain x where "c = [x]"
    by (cases c) auto
  with ascii_lowering_apply [OF assms(1,3)] show ?thesis by simp
qed

lemma queries_agree:
  assumes al: "ascii_lowering toLowerCase" and wf: "wellFormed p" and same: "sameFieldValues params p"
  shows "getAllStringsQuery toLowerCase params = Inr (naturalLanguageQuery toLowerCase p)"
    and "getAllStringsQuery3 params = Inr (naturalLanguageQuery3 p)"
proof -
  from same have pal: "qp_is_palindrome params =
       map_option (\<lambda>b. if b then js ''true'' else js ''false'') (is_palindrome p)"
    and mn: "rel_option (\<lambda>t n. parseInt t = n) (qp_min_length params) (min_length p)"
    and mx: "rel_option (\<lambda>t n. parseInt t = n) (qp_max_length params) (max_length p)"
    and wc: "rel_option (\<lambda>t n. parseInt t = n) (qp_word_count params) (word_count p)"
    and cc: "qp_contains_character params = contains_character p"
    by (simp_all add: sameFieldValues_def)
  from wf have n1: "min_length p \<noteq> Some NaN" and n2: "max_length p \<noteq> Some NaN"
    and n3: "word_count p \<noteq> Some NaN"
    and ch: "case contains_character p of None \<Rightarrow> True | Some c \<Rightarrow> length c = 1 \<and> list_all isAscii c"
    by (simp_all add: wellFormed_def)
  have len: "contains_character p = Some c \<Longrightarrow> length c = 1 \<and> length (toLowerCase c) = 1" for c
    using ch lower_single [OF al, of c] by simp
  show "getAllStringsQuery toLowerCase params = Inr (naturalLanguageQuery toLowerCase p)"
    unfolding getAllStringsQuery_def pal cc
    using len
    by (simp add: palindromeParam_same minLengthParam_same [OF mn n1] maxLengthParam_same [OF mx n2]
        wordCountParam_same [OF wc n3] andThen_def containsParam_def naturalLanguageQuery_def
        emptyQuery_def Let_def split: option.splits)
  show "getAllStringsQuery3 params = Inr (naturalLanguageQuery3 p)"
    unfolding getAllStringsQuery3_def pal cc
    using len
    by (simp add: palindromeParam_same minLengthParam_same [OF mn n1] maxLengthParam_same [OF mx n2]
        wordCountParam_same [OF wc n3] andThen_def containsParam3_def naturalLanguageQuery3_def
        emptyQuery_def split: option.splits)
qed

lemma parse_wf:
  assumes "ascii_lowering toLowerCase"
    and "parse = parseNaturalLanguage \<or> parse = parseNaturalLanguage2"
    and "parse toLowerCase (JString s) = Inr p"
  shows "wellFormed p \<and> s \<noteq> []"
  using assms(2)
proof
  assume "parse = parseNaturalLanguage"
  with assms(3) have "p = parsedOf toLowerCase (toLowerCase s)" and "trim s \<noteq> []"
    by (auto simp: parse_normal_form split: if_splits)
  then show ?thesis
    using parsedOf_wf [OF assms(1)] by (auto simp: trim_def)
next
  assume "parse = parseNaturalLanguage2"
  with assms(3) have "p = parsedOf2 (toLowerCase s)" and "s \<noteq> []"
    by (auto simp: parse2_normal_form split: if_splits)
  then show ?thesis
    using parsedOf2_wf by simp
qed

lemma paths_agree:
  assumes "ascii_lowering toLowerCase"
    and "parse = parseNaturalLanguage \<or> parse = parseNaturalLanguage2"
    and "parse toLowerCase (JString s) = Inr parsed"
    and "sameFieldValues params parsed"
  shows "filterByNaturalLanguage parse toLowerCase (Some s) docs = getAllStrings toLowerCase params docs \<and>
         filterByNaturalLanguage3 parse toLowerCase (Some s) docs = getAllStrings3 params docs \<and>
         getAllStrings toLowerCase params docs =
           Inr (storeFind (naturalLanguageQuery toLowerCase parsed) docs)"
proof -
  from parse_wf [OF assms(1-3)] have wf: "wellFormed parsed" and s: "s \<noteq> []"
    by simp_all
  show ?thesis
    using queries_agree [OF assms(1) wf assms(4)] s assms(3)
    by (simp add: filterByNaturalLanguage_def filterByNaturalLanguage3_def getAllStrings_def
        getAllStrings3_def andThen_def)
qed

lemma lower_of_lower: "isLowerAscii c \<Longrightarrow> lowerAscii c = c \<and> isAscii c"
  unfolding char_defs by (auto simp: word_le_nat_alt word_less_nat_alt unat_word_ariths)

lemma contains_queries:
  assumes "ascii_lowering toLowerCase" "isLowerAscii c"
  shows "getAllStringsQuery toLowerCase (emptyParams\<lparr>qp_contains_character := Some [c]\<rparr>) =
           Inr (emptyQuery\<lparr>mq_frequency_key := Some [c]\<rparr>)"
    and "naturalLanguageQuery toLowerCase (emptyParsed\<lparr>contains_character := Some [c]\<rparr>) =
           emptyQuery\<lparr>mq_frequency_key := Some [c]\<rparr>"
    and "getAllStringsQuery3 (emptyParams\<lparr>qp_contains_character := Some [c]\<rparr>) =
           Inr (emptyQuery\<lparr>mq_frequency_key := Some [c]\<rparr>)"
    and "naturalLanguageQuery3 (emptyParsed\<lparr>contains_character := Some [c]\<rparr>) =
           emptyQuery\<lparr>mq_frequency_key := Some [c]\<rparr>"
proof -
  have l: "toLowerCase [c] = [c]"
    using ascii_lowering_apply [OF assms(1), of "[c]"] lower_of_lower [OF assms(2)] by simp
  show "getAllStringsQuery toLowerCase (emptyParams\<lparr>qp_contains_character := Some [c]\<rparr>) =
           Inr (emptyQuery\<lparr>mq_frequency_key := Some [c]\<rparr>)"
    by (simp add: getAllStringsQuery_def emptyParams_def andThen_def palindromeParam_def
        minLengthParam_def maxLengthParam_def wordCountParam_def containsParam_def l)
  show "naturalLanguageQuery toLowerCase (emptyParsed\<lparr>contains_character := Some [c]\<rparr>) =
           emptyQuery\<lparr>mq_frequency_key := Some [c]\<rparr>"
    by (simp add: naturalLanguageQuery_def emptyParsed_def emptyQuery_def l)
  show "getAllStringsQuery3 (emptyParams\<lparr>qp_contains_character := Some [c]\<rparr>) =
           Inr (emptyQuery\<lparr>mq_frequency_key := Some [c]\<rparr>)"
    by (simp add: getAllStringsQuery3_def emptyParams_def andThen_def palindromeParam_def
        minLengthParam_def maxLengthParam_def wordCountParam_def containsParam3_def)
  show "naturalLanguageQuery3 (emptyParsed\<lparr>contains_character := Some [c]\<rparr>) =
           emptyQuery\<lparr>mq_frequency_key := Some [c]\<rparr>"
    by (simp add: naturalLanguageQuery3_def emptyParsed_def emptyQuery_def)
qed

lemma mongoMatches_key:
  "mongoMatches (emptyQuery\<lparr>mq_frequency_key := Some k\<rparr>) p \<longleftrightarrow>
     (\<exists>n. map_of (p_character_frequency_map p) k = Some n \<and> 0 < n)"
  by (auto simp: mongoMatches_def emptyQuery_def split: option.splits)

section \<open>The parser on sentences\<close>

lemmas re_eval = reSeq_def reSeqs_def reAlt_def reOpt_def reWordBoundary_def reGroup_def
  reMatch_def reTest_def

lemmas rule_defs = singleWordRe_def palindromeRe_def longerRe_def shorterRe_def containsRe_def
  firstVowelRe_def singleWordRe2_def oneWordRe2_def palindromeRe2_def palindromicRe2_def
  longerRe2_def shorterRe2_def containsRe2_def

lemmas parse_eval = parseNaturalLanguage_def parseNaturalLanguage2_def toLowerCaseAscii_def trim_def
  lengthRule_def parseInt_def digitsValue_def digitValue_def toNumber_def jsPlus_def isNaN_def
  parsedKeys_def emptyParsed_def

lemma lengthRule_None_suffix:
  assumes "\<not> anySuffix (litPrefix i L) q"
  shows "lengthRule (reSeqs [reLit i L, reGroup 1 (rePlus isDigit)]) k q = None"
proof -
  have "\<not> reTest (reSeqs [reLit i L, reGroup 1 (rePlus isDigit)]) q"
    using plain_lit assms by (rule reTest_False_suffix)
  then show ?thesis
    by (subst lengthRule_eq) (simp add: reTest_def split: option.splits)
qed

lemma only_contains_second:
  assumes "\<not> anySuffix (litPrefix False (js ''single'')) q"
    and "\<not> anySuffix (litPrefix False (js ''one'')) q"
    and "\<not> anySuffix (litPrefix False (js ''palindrom'')) q"
    and "\<not> anySuffix (litPrefix False (js ''palindromic'')) q"
    and "\<not> anySuffix (litPrefix False (js ''longer than '')) q"
    and "\<not> anySuffix (litPrefix False (js ''shorter than '')) q"
    and "\<not> anySuffix (litPrefix False (js ''first vowel'')) q"
  shows "parsedOf2 q =
     \<lparr> word_count = None, is_palindrome = None, min_length = None, max_length = None,
       contains_character =
         (case reMatch containsRe2 q of Some caps \<Rightarrow> firstCapture caps [1, 2, 3] | None \<Rightarrow> None) \<rparr>"
proof -
  have 1: "\<not> reTest singleWordRe2 q"
    unfolding singleWordRe2_def using bounded_lit assms(1) by (rule reTest_False_suffix)
  have 2: "\<not> reTest oneWordRe2 q"
    unfolding oneWordRe2_def using bounded_lit assms(2) by (rule reTest_False_suffix)
  have 3: "\<not> reTest palindromeRe2 q"
    unfolding palindromeRe2_def using bounded_lit assms(3) by (rule reTest_False_suffix)
  have 4: "\<not> reTest palindromicRe2 q"
    unfolding palindromicRe2_def using bounded_lit assms(4) by (rule reTest_False_suffix)
  have 5: "lengthRule longerRe2 1 q = None"
    unfolding longerRe2_def using assms(5) by (rule lengthRule_None_suffix)
  have 6: "lengthRule shorterRe2 (- 1) q = None"
    unfolding shorterRe2_def using assms(6) by (rule lengthRule_None_suffix)
  have 7: "\<not> reTest firstVowelRe q"
    unfolding firstVowelRe_def using bounded_lit assms(7) by (rule reTest_False_suffix)
  show ?thesis
    by (simp add: parsedOf2_def 1 2 3 4 5 6 7)
qed

lemma only_contains_first:
  assumes "\<not> anySuffix (\<lambda>t. litPrefix False (js ''single'') t \<or> litPrefix False (js ''one'') t) q"
    and "\<not> anySuffix (litPrefix False (js ''palindrom'')) q"
    and "\<not> anySuffix (litPrefix True (js ''longer than '')) q"
    and "\<not> anySuffix (litPrefix True (js ''shorter than '')) q"
    and "\<not> anySuffix (litPrefix False (js ''first vowel'')) q"
  shows "parsedOf toLowerCase q =
     \<lparr> word_count = None, is_palindrome = None, min_length = None, max_length = None,
       contains_character =
         (case reMatch containsRe q of
            Some caps \<Rightarrow> Some (toLowerCase (case map_of caps 1 of None \<Rightarrow> [] | Some t \<Rightarrow> t))
          | None \<Rightarrow> None) \<rparr>"
proof -
  have 1: "\<not> reTest singleWordRe q"
    using singleWordRe_lit assms(1) by (rule reTest_False_suffix)
  have 3: "\<not> reTest palindromeRe q"
    unfolding palindromeRe_def using bounded_lit assms(2) by (rule reTest_False_suffix)
  have 5: "lengthRule longerRe 1 q = None"
    unfolding longerRe_def using assms(3) by (rule lengthRule_None_suffix)
  have 6: "lengthRule shorterRe (- 1) q = None"
    unfolding shorterRe_def using assms(4) by (rule lengthRule_None_suffix)
  have 7: "\<not> reTest firstVowelRe q"
    unfolding firstVowelRe_def using bounded_lit assms(5) by (rule reTest_False_suffix)
  show ?thesis
    by (simp add: parsedOf_def containsField_def 1 3 5 6 7 Let_def split: option.splits)
qed

lemma alnum_facts:
  assumes "isAsciiLetter X \<or> isDigit X"
  shows "isWordChar (lowerAscii X)" "\<not> isWhiteSpace X" "isAscii X"
  using assms unfolding char_defs by (auto simp: word_le_nat_alt word_less_nat_alt unat_word_ariths)

lemma letter_facts:
  assumes "isAsciiLetter X"
  shows "isAsciiLetter (lowerAscii X)" "lowerAscii (lowerAscii X) = lowerAscii X"
  using assms unfolding char_defs by (auto simp: word_le_nat_alt word_less_nat_alt unat_word_ariths)

lemma lower_phrase:
  assumes "ascii_lowering toLowerCase" "list_all isAscii f" "map lowerAscii f = f" "isAscii X"
  shows "toLowerCase (f @ [X]) = f @ [lowerAscii X]"
  using ascii_lowering_apply [OF assms(1), of "f @ [X]"] assms(2-4) by simp

lemma trim_phrase: "\<not> isWhiteSpace X \<Longrightarrow> trim (f @ [X]) \<noteq> []"
  by (cases f) (auto simp: trim_def dropWhile_append split: if_splits)

lemma phrases_ascii:
  "list_all isAscii (js ''containing the letter '')" "map lowerAscii (js ''containing the letter '') = js ''containing the letter ''"
  "list_all isAscii (js ''containing '')" "map lowerAscii (js ''containing '') = js ''containing ''"
  "list_all isAscii (js ''contains '')" "map lowerAscii (js ''contains '') = js ''contains ''"
  by (simp_all add: js_def isAscii_def lowerAscii_def isUpperAscii_def)

lemma contains_form_second:
  assumes al: "ascii_lowering toLowerCase" and X: "isAsciiLetter X \<or> isDigit X"
    and f: "f = js ''containing the letter '' \<or> f = js ''containing '' \<or> f = js ''contains ''"
  shows "parseNaturalLanguage2 toLowerCase (JString (f @ [X])) =
           Inr \<lparr> word_count = None, is_palindrome = None, min_length = None, max_length = None,
                 contains_character = Some [lowerAscii X] \<rparr>"
proof -
  let ?x = "lowerAscii X"
  note xs = alnum_facts [OF X]
  have q: "toLowerCase (f @ [X]) = f @ [?x]"
    using f lower_phrase [OF al _ _ xs(3)] phrases_ascii by blast
  have m: "reMatch containsRe2 (f @ [?x]) = Some [(1, [?x])] \<or>
           reMatch containsRe2 (f @ [?x]) = Some [(2, [?x])] \<or>
           reMatch containsRe2 (f @ [?x]) = Some [(3, [?x])]"
    using f xs(1)
    by (auto simp: js_def sameChar_def containsRe2_def reSeqs_def reSeq_def reAlt_def reGroup_def reMatch_def)
  have "parsedOf2 (f @ [?x]) =
     \<lparr> word_count = None, is_palindrome = None, min_length = None, max_length = None,
       contains_character =
         (case reMatch containsRe2 (f @ [?x]) of Some caps \<Rightarrow> firstCapture caps [1, 2, 3] | None \<Rightarrow> None) \<rparr>"
    using f by (intro only_contains_second) (auto simp: js_def sameChar_def)
  then have p: "parsedOf2 (f @ [?x]) =
     \<lparr> word_count = None, is_palindrome = None, min_length = None, max_length = None,
       contains_character = Some [?x] \<rparr>"
    using m by auto
  show ?thesis
    by (simp add: parse2_normal_form q p parsedKeys_def)
qed

lemma contains_form_first:
  assumes al: "ascii_lowering toLowerCase" and X: "isAsciiLetter X"
    and f: "f = js ''containing the letter '' \<or> f = js ''containing '' \<or> f = js ''contains ''"
  shows "parseNaturalLanguage toLowerCase (JString (f @ [X])) =
           Inr \<lparr> word_count = None, is_palindrome = None, min_length = None, max_length = None,
                 contains_character = Some [lowerAscii X] \<rparr>"
proof -
  let ?x = "lowerAscii X"
  have X': "isAsciiLetter X \<or> isDigit X" using X by simp
  note xs = alnum_facts [OF X'] and ls = letter_facts [OF X]
  have q: "toLowerCase (f @ [X]) = f @ [?x]"
    using f lower_phrase [OF al _ _ xs(3)] phrases_ascii by blast
  have t: "trim (f @ [X]) \<noteq> []"
    using xs(2) by (rule trim_phrase)
  have l: "toLowerCase [?x] = [?x]"
    using ascii_lowering_apply [OF al, of "[?x]"] ls letter_ascii [OF ls(1)] by simp
  have m: "reMatch containsRe (f @ [?x]) = Some [(1, [?x])]"
    using f ls(1)
    by (auto simp: js_def sameChar_def containsRe_def reSeqs_def reSeq_def reAlt_def reGroup_def reMatch_def
        upperAscii_def isLowerAscii_def)
  have "parsedOf toLowerCase (f @ [?x]) =
     \<lparr> word_count = None, is_palindrome = None, min_length = None, max_length = None,
       contains_character =
         (case reMatch containsRe (f @ [?x]) of
            Some caps \<Rightarrow> Some (toLowerCase (case map_of caps 1 of None \<Rightarrow> [] | Some t \<Rightarrow> t))
          | None \<Rightarrow> None) \<rparr>"
    using f by (intro only_contains_first) (auto simp: js_def sameChar_def upperAscii_def isLowerAscii_def)
  then have p: "parsedOf toLowerCase (f @ [?x]) =
     \<lparr> word_count = None, is_palindrome = None, min_length = None, max_length = None,
       contains_character = Some [?x] \<rparr>"
    using m l by simp
  show ?thesis
    by (simp add: parse_normal_form q p t parsedKeys_def)
qed

subsection \<open>The leftmost match of the containment rule\<close>

lemma reSearch_skip:
  "\<not> startsIn r prev pre t \<Longrightarrow>
     reSearch r prev (pre @ t) = reSearch r (if pre = [] then prev else Some (last pre)) t"
  by (induction pre arbitrary: prev) auto

lemma litPrefix_weaken: "litPrefix i (a @ b) s \<Longrightarrow> litPrefix True a s"
proof (induction a arbitrary: s)
  case Nil
  then show ?case by simp
next
  case (Cons p ps)
  then show ?case
    by (cases s; cases i) (auto simp: sameChar_def)
qed

lemma containsRe_at:
  assumes "f = js ''containing the letter '' \<or> f = js ''contains '' \<or>
           f = js ''containing '' \<and> \<not> litPrefix True (js ''the letter'') (x # post)"
    and "isAsciiLetter x"
  shows "hd (containsRe (prev, f @ x # post, [])) = (Some x, post, [(1, [x])]) \<and>
         containsRe (prev, f @ x # post, []) \<noteq> []"
proof -
  note defs = js_def sameChar_def containsRe_def reSeqs_def reSeq_def reAlt_def reGroup_def
    upperAscii_def isLowerAscii_def
  from assms(1) consider
    (letter) "f = js ''containing the letter ''" | (contains) "f = js ''contains ''" |
    (containing) "f = js ''containing ''" "\<not> litPrefix True (js ''the letter'') (x # post)"
    by blast
  then show ?thesis
  proof cases
    case letter
    then show ?thesis
      using assms(2) by (simp add: defs)
  next
    case contains
    then show ?thesis
      using assms(2) by (simp add: defs)
  next
    case containing
    then have "reLit True (js ''the letter'') (Some 0x20, x # post, []) = []"
      by (simp add: reLit_rest)
    then show ?thesis
      using assms(2) containing(1) by (simp add: defs)
  qed
qed

lemma containsRe2_at:
  assumes "f = js ''containing the letter '' \<or> f = js ''contains '' \<or>
           f = js ''containing '' \<and> \<not> litPrefix True (js ''the letter'') (x # post)"
    and "isWordChar x"
  shows "\<exists>n. (n = 1 \<or> n = 2 \<or> n = 3) \<and>
           hd (containsRe2 (prev, f @ x # post, [])) = (Some x, post, [(n, [x])]) \<and>
           containsRe2 (prev, f @ x # post, []) \<noteq> []"
proof -
  note defs = js_def sameChar_def containsRe2_def reSeqs_def reSeq_def reAlt_def reGroup_def
  from assms(1) consider
    (letter) "f = js ''containing the letter ''" | (contains) "f = js ''contains ''" |
    (containing) "f = js ''containing ''" "\<not> litPrefix True (js ''the letter'') (x # post)"
    by blast
  then show ?thesis
  proof cases
    case letter
    then have "hd (containsRe2 (prev, f @ x # post, [])) = (Some x, post, [(1, [x])]) \<and>
           containsRe2 (prev, f @ x # post, []) \<noteq> []"
      using assms(2) by (simp add: defs)
    then show ?thesis by blast
  next
    case contains
    then have "hd (containsRe2 (prev, f @ x # post, [])) = (Some x, post, [(3, [x])]) \<and>
           containsRe2 (prev, f @ x # post, []) \<noteq> []"
      using assms(2) by (simp add: defs)
    then show ?thesis by blast
  next
    case containing
    have "\<not> litPrefix False (js ''the letter '') (x # post)"
      using litPrefix_weaken [of False "js ''the letter''" "js '' ''" "x # post"] containing(2)
      by (auto simp: js_def)
    then have "reLit False (js ''the letter '') (Some 0x20, x # post, []) = []"
      by (simp add: reLit_rest)
    then have "hd (containsRe2 (prev, f @ x # post, [])) = (Some x, post, [(2, [x])]) \<and>
           containsRe2 (prev, f @ x # post, []) \<noteq> []"
      using assms(2) containing(1) by (simp add: defs)
    then show ?thesis by blast
  qed
qed

lemma word_facts:
  assumes "isWordChar X"
  shows "isWordChar (lowerAscii X)" "isAscii X" "lowerAscii (lowerAscii X) = lowerAscii X"
  using assms unfolding char_defs by (auto simp: word_le_nat_alt word_less_nat_alt unat_word_ariths)


lemma contains_match_first:
  assumes "f = js ''containing the letter '' \<or> f = js ''contains '' \<or>
           f = js ''containing '' \<and> \<not> litPrefix True (js ''the letter'') (x # post)"
    and "isAsciiLetter x" and "\<not> startsIn containsRe None pre (f @ x # post)"
  shows "reMatch containsRe (pre @ f @ x # post) = Some [(1, [x])]"
proof -
  let ?prev = "if pre = [] then None else Some (last pre)"
  note at = containsRe_at [OF assms(1,2), of ?prev]
  from at have "reSearch containsRe ?prev (f @ x # post) = Some (hd (containsRe (?prev, f @ x # post, [])))"
    by (intro reSearch_hit) simp
  with at reSearch_skip [OF assms(3)] show ?thesis
    by (simp add: reMatch_def)
qed

lemma contains_match_second:
  assumes "f = js ''containing the letter '' \<or> f = js ''contains '' \<or>
           f = js ''containing '' \<and> \<not> litPrefix True (js ''the letter'') (x # post)"
    and "isWordChar x" and "\<not> startsIn containsRe2 None pre (f @ x # post)"
  shows "\<exists>caps. reMatch containsRe2 (pre @ f @ x # post) = Some caps \<and>
           firstCapture caps [1, 2, 3] = Some [x]"
proof -
  let ?prev = "if pre = [] then None else Some (last pre)"
  from containsRe2_at [OF assms(1,2), of ?prev] obtain n where
    n: "n = 1 \<or> n = 2 \<or> n = 3"
    and h: "hd (containsRe2 (?prev, f @ x # post, [])) = (Some x, post, [(n, [x])])"
    and ne: "containsRe2 (?prev, f @ x # post, []) \<noteq> []"
    by blast
  from ne have "reSearch containsRe2 ?prev (f @ x # post) = Some (hd (containsRe2 (?prev, f @ x # post, [])))"
    by (rule reSearch_hit)
  with h reSearch_skip [OF assms(3)] have "reMatch containsRe2 (pre @ f @ x # post) = Some [(n, [x])]"
    by (simp add: reMatch_def)
  moreover have "firstCapture [(n, [x])] [1, 2, 3] = Some [x]"
    using n by auto
  ultimately show ?thesis by blast
qed

lemma contains_sentence_first:
  assumes al: "ascii_lowering toLowerCase"
    and f: "f = js ''containing the letter '' \<or> f = js ''contains '' \<or>
           f = js ''containing '' \<and> \<not> litPrefix True (js ''the letter'') (lowerAscii X # post)"
    and X: "isAsciiLetter X" and t: "trim s \<noteq> []"
    and q: "toLowerCase s = pre @ f @ lowerAscii X # post"
    and first: "\<not> startsIn containsRe None pre (f @ lowerAscii X # post)"
  shows "\<exists>p. parseNaturalLanguage toLowerCase (JString s) = Inr p \<and>
             contains_character p = Some [lowerAscii X]"
proof -
  let ?x = "lowerAscii X"
  note ls = letter_facts [OF X]
  have m: "reMatch containsRe (toLowerCase s) = Some [(1, [?x])]"
    unfolding q using f ls(1) first by (rule contains_match_first)
  have l: "toLowerCase [?x] = [?x]"
    using ascii_lowering_apply [OF al, of "[?x]"] ls letter_ascii [OF ls(1)] by simp
  have "containsField toLowerCase (toLowerCase s) = Some [?x]"
    using m l by (simp add: containsField_def)
  then have "parseNaturalLanguage toLowerCase (JString s) = Inr (parsedOf toLowerCase (toLowerCase s)) \<and>
             contains_character (parsedOf toLowerCase (toLowerCase s)) = Some [?x]"
    using t by (simp add: parse_normal_form parsedKeys_def parsedOf_def)
  then show ?thesis by blast
qed

lemma contains_sentence_second:
  assumes f: "f = js ''containing the letter '' \<or> f = js ''contains '' \<or>
           f = js ''containing '' \<and> \<not> litPrefix True (js ''the letter'') (lowerAscii X # post)"
    and X: "isWordChar X" and t: "s \<noteq> []"
    and q: "toLowerCase s = pre @ f @ lowerAscii X # post"
    and first: "\<not> startsIn containsRe2 None pre (f @ lowerAscii X # post)"
  shows "\<exists>p. parseNaturalLanguage2 toLowerCase (JString s) = Inr p \<and>
             contains_character p =
               Some (if reTest firstVowelRe (toLowerCase s) then js ''a'' else [lowerAscii X])"
proof -
  let ?x = "lowerAscii X"
  note ws = word_facts [OF X]
  from contains_match_second [OF f ws(1) first] obtain caps where
    m: "reMatch containsRe2 (toLowerCase s) = Some caps" and c: "firstCapture caps [1, 2, 3] = Some [?x]"
    unfolding q by blast
  have "parseNaturalLanguage2 toLowerCase (JString s) = Inr (parsedOf2 (toLowerCase s)) \<and>
        contains_character (parsedOf2 (toLowerCase s)) =
          Some (if reTest firstVowelRe (toLowerCase s) then js ''a'' else [?x])"
    using t m c by (simp add: parse2_normal_form parsedKeys_def parsedOf2_def)
  then show ?thesis by blast
qed

lemma containsField_ascii:
  assumes "ascii_lowering toLowerCase"
  shows "containsField toLowerCase q = containsField toLowerCaseAscii q"
proof (cases "reMatch containsRe q")
  case None
  then show ?thesis by (simp add: containsField_def)
next
  case (Some caps)
  from containsRe_match [OF Some] obtain c where c: "isAsciiLetter c" and caps: "caps = [(1, [c])]"
    by blast
  have "toLowerCase [c] = [lowerAscii c]"
    using ascii_lowering_apply [OF assms, of "[c]"] letter_ascii [OF c] by simp
  then show ?thesis
    using Some caps by (simp add: containsField_def toLowerCaseAscii_def)
qed

lemma parse_ascii:
  assumes "ascii_lowering toLowerCase" "list_all isAscii s"
  shows "parseNaturalLanguage toLowerCase (JString s) = parseNaturalLanguage toLowerCaseAscii (JString s)"
proof -
  have "toLowerCase s = toLowerCaseAscii s"
    using ascii_lowering_apply [OF assms] by (simp add: toLowerCaseAscii_def)
  moreover have "parsedOf toLowerCase q = parsedOf toLowerCaseAscii q" for q
    using containsField_ascii [OF assms(1), of q] by (simp add: parsedOf_def)
  ultimately show ?thesis
    by (simp add: parse_normal_form)
qed

subsection \<open>Failure and success\<close>

text \<open>
  C3, as the spec states it, fails on a sentence of blanks: the first definition
  rejects it with the plain error \<open>Query must be a non-empty string\<close>, which has no
  code \<open>UNPARSEABLE\<close>, and the handler answers 500 where an unparseable sentence
  gets 400.
\<close>

theorem C3_blank_query_counterexample:
  "parseNaturalLanguage toLowerCaseAscii (JString (js ''   '')) = Inl QueryError \<and>
   filterByNaturalLanguage parseNaturalLanguage toLowerCaseAscii (Some (js ''   '')) [] = Inl 500"
  by (simp add: filterByNaturalLanguage_def parse_eval js_def char_defs)

text \<open>
  C3 (amended): for every string sentence, the first definition of
  \<open>parseNaturalLanguage\<close> fails exactly when the sentence is empty after trimming or
  no rule matches its lower-cased form. The failure is the plain, untyped error when
  the sentence is empty after trimming, and the typed \<open>UNPARSEABLE\<close> error when it is
  not and no rule matches. In every other case the result is an object with at least
  one field set; an empty object is never returned. The second definition does the
  same, except that it rejects only the empty string with the plain error, without
  trimming.
\<close>

theorem C3_parse_outcomes:
  "(trim s = [] \<longrightarrow> parseNaturalLanguage toLowerCase (JString s) = Inl QueryError) \<and>
   (trim s \<noteq> [] \<and> \<not> anyRuleMatches (toLowerCase s) \<longrightarrow>
      parseNaturalLanguage toLowerCase (JString s) = Inl Unparseable) \<and>
   (trim s \<noteq> [] \<and> anyRuleMatches (toLowerCase s) \<longrightarrow>
      (\<exists>p. parseNaturalLanguage toLowerCase (JString s) = Inr p \<and> 0 < parsedKeys p)) \<and>
   (s = [] \<longrightarrow> parseNaturalLanguage2 toLowerCase (JString s) = Inl QueryError) \<and>
   (s \<noteq> [] \<and> \<not> anyRuleMatches2 (toLowerCase s) \<longrightarrow>
      parseNaturalLanguage2 toLowerCase (JString s) = Inl Unparseable) \<and>
   (s \<noteq> [] \<and> anyRuleMatches2 (toLowerCase s) \<longrightarrow>
      (\<exists>p. parseNaturalLanguage2 toLowerCase (JString s) = Inr p \<and> 0 < parsedKeys p))"
  using parsedKeys_parsedOf [of toLowerCase "toLowerCase s"] parsedKeys_parsedOf2 [of "toLowerCase s"]
  by (auto simp: parse_normal_form parse2_normal_form)

theorem C3_parse_outcomes_witness:
  "trim (js ''   '') = [] \<and>
   parseNaturalLanguage toLowerCaseAscii (JString (js ''   '')) = Inl QueryError \<and>
   trim (js ''banana'') \<noteq> [] \<and> \<not> anyRuleMatches (toLowerCaseAscii (js ''banana'')) \<and>
   parseNaturalLanguage toLowerCaseAscii (JString (js ''banana'')) = Inl Unparseable \<and>
   trim (js ''single word strings'') \<noteq> [] \<and>
   anyRuleMatches (toLowerCaseAscii (js ''single word strings'')) \<and>
   (\<exists>p. parseNaturalLanguage toLowerCaseAscii (JString (js ''single word strings'')) = Inr p \<and>
        0 < parsedKeys p) \<and>
   js ''   '' \<noteq> [] \<and> \<not> anyRuleMatches2 (toLowerCaseAscii (js ''   '')) \<and>
   parseNaturalLanguage2 toLowerCaseAscii (JString (js ''   '')) = Inl Unparseable"
proof -
  have 1: "trim (js ''   '') = []"
    by (simp add: trim_def js_def isWhiteSpace_def)
  have 2: "trim (js ''banana'') \<noteq> []"
    by (simp add: trim_def js_def isWhiteSpace_def)
  have 3: "\<not> anyRuleMatches (toLowerCaseAscii (js ''banana''))"
    by (simp add: anyRuleMatches_def toLowerCaseAscii_def js_def char_defs re_eval rule_defs)
  have 4: "trim (js ''single word strings'') \<noteq> []"
    by (simp add: trim_def js_def isWhiteSpace_def)
  have 5: "anyRuleMatches (toLowerCaseAscii (js ''single word strings''))"
    by (simp add: anyRuleMatches_def toLowerCaseAscii_def js_def char_defs re_eval rule_defs)
  have 6: "js ''   '' \<noteq> []"
    by (simp add: js_def)
  have 7: "\<not> anyRuleMatches2 (toLowerCaseAscii (js ''   ''))"
    by (simp add: anyRuleMatches2_def toLowerCaseAscii_def js_def char_defs re_eval rule_defs)
  show ?thesis
    using C3_parse_outcomes [of "js ''   ''" toLowerCaseAscii]
      C3_parse_outcomes [of "js ''banana''" toLowerCaseAscii]
      C3_parse_outcomes [of "js ''single word strings''" toLowerCaseAscii]
      1 2 3 4 5 6 7
    by blast
qed

subsection \<open>Containment and first vowel\<close>

text \<open>
  C2, as the spec states it, fails on the second definition of the parser (lines
  56-114), whose first-vowel rule assigns unconditionally: in
  \<open>"contains z first vowel"\<close> both rules match, the containment rule captures \<open>z\<close>,
  and \<open>contains_character\<close> is \<open>a\<close>.
\<close>

theorem C2_second_definition_counterexample:
  "reMatch containsRe2 (toLowerCaseAscii (js ''contains z first vowel'')) = Some [(3, js ''z'')] \<and>
   reTest firstVowelRe (toLowerCaseAscii (js ''contains z first vowel'')) \<and>
   parseNaturalLanguage2 toLowerCaseAscii (JString (js ''contains z first vowel'')) =
     Inr \<lparr> word_count = None, is_palindrome = None, min_length = None, max_length = None,
           contains_character = Some (js ''a'') \<rparr>"
  by (simp add: parse_eval js_def char_defs re_eval rule_defs)

text \<open>
  C2 (amended): for every sentence in which the containment rule and the first-vowel
  rule both match, the first definition (lines 2-52) sets \<open>contains_character\<close> to
  the lower-cased character captured by the containment rule, and the second
  definition (lines 56-114) sets it to \<open>a\<close>. The case mapping lowers ASCII as the
  runtime does.
\<close>

theorem C2_contains_precedence:
  assumes "ascii_lowering toLowerCase"
  shows "(trim s \<noteq> [] \<and> reMatch containsRe (toLowerCase s) = Some caps \<and>
          reTest firstVowelRe (toLowerCase s) \<longrightarrow>
            (\<exists>c p. caps = [(1, [c])] \<and> parseNaturalLanguage toLowerCase (JString s) = Inr p \<and>
                   contains_character p = Some [lowerAscii c])) \<and>
         (s \<noteq> [] \<and> reTest containsRe2 (toLowerCase s) \<and> reTest firstVowelRe (toLowerCase s) \<longrightarrow>
            (\<exists>p. parseNaturalLanguage2 toLowerCase (JString s) = Inr p \<and>
                 contains_character p = Some (js ''a'')))"
proof (intro conjI impI)
  assume a: "trim s \<noteq> [] \<and> reMatch containsRe (toLowerCase s) = Some caps \<and>
          reTest firstVowelRe (toLowerCase s)"
  then have m: "reMatch containsRe (toLowerCase s) = Some caps" by simp
  from containsRe_match [OF m] obtain c where c: "isAsciiLetter c" and caps: "caps = [(1, [c])]"
    by blast
  have l: "toLowerCase [c] = [lowerAscii c]"
    using ascii_lowering_apply [OF assms, of "[c]"] letter_ascii [OF c] by simp
  have "containsField toLowerCase (toLowerCase s) = Some [lowerAscii c]"
    using a caps l by (simp add: containsField_def)
  then have "parseNaturalLanguage toLowerCase (JString s) = Inr (parsedOf toLowerCase (toLowerCase s)) \<and>
             contains_character (parsedOf toLowerCase (toLowerCase s)) = Some [lowerAscii c]"
    using a by (simp add: parse_normal_form parsedKeys_def parsedOf_def)
  with caps show "\<exists>c p. caps = [(1, [c])] \<and> parseNaturalLanguage toLowerCase (JString s) = Inr p \<and>
                   contains_character p = Some [lowerAscii c]"
    by blast
next
  assume a: "s \<noteq> [] \<and> reTest containsRe2 (toLowerCase s) \<and> reTest firstVowelRe (toLowerCase s)"
  then have "parseNaturalLanguage2 toLowerCase (JString s) = Inr (parsedOf2 (toLowerCase s)) \<and>
             contains_character (parsedOf2 (toLowerCase s)) = Some (js ''a'')"
    by (simp add: parse2_normal_form parsedKeys_def parsedOf2_def)
  then show "\<exists>p. parseNaturalLanguage2 toLowerCase (JString s) = Inr p \<and>
                 contains_character p = Some (js ''a'')"
    by blast
qed

theorem C2_contains_precedence_witness:
  "ascii_lowering toLowerCaseAscii \<and>
   trim (js ''contains z first vowel'') \<noteq> [] \<and>
   reMatch containsRe (toLowerCaseAscii (js ''contains z first vowel'')) = Some [(1, js ''z'')] \<and>
   reTest firstVowelRe (toLowerCaseAscii (js ''contains z first vowel'')) \<and>
   (\<exists>p. parseNaturalLanguage toLowerCaseAscii (JString (js ''contains z first vowel'')) = Inr p \<and>
        contains_character p = Some (js ''z'')) \<and>
   js ''contains z first vowel'' \<noteq> [] \<and>
   reTest containsRe2 (toLowerCaseAscii (js ''contains z first vowel'')) \<and>
   (\<exists>p. parseNaturalLanguage2 toLowerCaseAscii (JString (js ''contains z first vowel'')) = Inr p \<and>
        contains_character p = Some (js ''a''))"
proof -
  let ?s = "js ''contains z first vowel''"
  have 1: "trim ?s \<noteq> []"
    by (simp add: trim_def js_def isWhiteSpace_def)
  have 2: "reMatch containsRe (toLowerCaseAscii ?s) = Some [(1, js ''z'')]"
    by (simp add: toLowerCaseAscii_def js_def char_defs re_eval rule_defs)
  have 3: "reTest firstVowelRe (toLowerCaseAscii ?s)"
    by (simp add: toLowerCaseAscii_def js_def char_defs re_eval rule_defs)
  have 4: "?s \<noteq> []"
    by (simp add: js_def)
  have 5: "reTest containsRe2 (toLowerCaseAscii ?s)"
    by (simp add: toLowerCaseAscii_def js_def char_defs re_eval rule_defs)
  have 6: "[lowerAscii 0x7A] = js ''z''"
    by (simp add: js_def char_defs)
  from C2_contains_precedence [OF ascii_lowering_toLowerCaseAscii, of ?s "[(1, js ''z'')]"] 1 2 3 4 5
  have "(\<exists>c p. [(1::nat, js ''z'')] = [(1, [c])] \<and>
            parseNaturalLanguage toLowerCaseAscii (JString ?s) = Inr p \<and>
            contains_character p = Some [lowerAscii c]) \<and>
        (\<exists>p. parseNaturalLanguage2 toLowerCaseAscii (JString ?s) = Inr p \<and>
             contains_character p = Some (js ''a''))"
    by blast
  then have "(\<exists>p. parseNaturalLanguage toLowerCaseAscii (JString ?s) = Inr p \<and>
                  contains_character p = Some (js ''z'')) \<and>
             (\<exists>p. parseNaturalLanguage2 toLowerCaseAscii (JString ?s) = Inr p \<and>
                  contains_character p = Some (js ''a''))"
    using 6 by (auto simp: js_def)
  with ascii_lowering_toLowerCaseAscii 1 2 3 4 5 show ?thesis
    by blast
qed

subsection \<open>The containment phrasings\<close>

text \<open>
  C5, as the spec states it, fails on the first definition, whose containment rule
  captures a letter only: \<open>"contains 5"\<close> matches no rule.
\<close>

theorem C5_digit_counterexample:
  "isDigit 0x35 \<and>
   parseNaturalLanguage toLowerCaseAscii (JString (js ''contains '' @ [0x35])) = Inl Unparseable"
  by (simp add: parse_eval js_def char_defs re_eval rule_defs)

text \<open>
  C5 (amended): let the lower-cased sentence be \<open>pre\<close>, then one of
  \<open>"containing the letter "\<close>, \<open>"containing "\<close> and \<open>"contains "\<close>, then \<open>lowercase(X)\<close>,
  then \<open>post\<close>, where the definition's pattern has no match that starts in \<open>pre\<close>
  and, for \<open>"containing "\<close>, the text from \<open>X\<close> on does not read \<open>the letter\<close> (there
  the first alternative, \<open>containing the letter\<close>, is tried first and takes the
  character after it). Then the first definition, for an ASCII letter \<open>X\<close>, sets
  \<open>contains_character = lowercase(X)\<close>, and the second definition, for a letter, a
  digit or the underscore, sets it to \<open>lowercase(X)\<close> unless the first-vowel rule
  matches too, which makes it \<open>a\<close>. A sentence that is the phrase and \<open>X\<close> alone
  compiles to an object with this field only: in the second definition for every
  letter or digit, in the first for every letter, which captures no digit. In
  \<open>"containing the letter X"\<close> the first alternative wins: the character is \<open>X\<close>,
  not the \<open>t\<close> of \<open>the\<close>.
\<close>

theorem C5_contains_forms:
  assumes "ascii_lowering toLowerCase"
    and "f = js ''containing the letter '' \<or> f = js ''containing '' \<or> f = js ''contains ''"
  shows "(isWordChar X \<and> s \<noteq> [] \<and> toLowerCase s = pre @ f @ lowerAscii X # post \<and>
          \<not> startsIn containsRe2 None pre (f @ lowerAscii X # post) \<and>
          (f \<noteq> js ''containing '' \<or> \<not> litPrefix True (js ''the letter'') (lowerAscii X # post)) \<longrightarrow>
            (\<exists>p. parseNaturalLanguage2 toLowerCase (JString s) = Inr p \<and>
                 contains_character p =
                   Some (if reTest firstVowelRe (toLowerCase s) then js ''a'' else [lowerAscii X]))) \<and>
         (isAsciiLetter X \<and> trim s \<noteq> [] \<and> toLowerCase s = pre @ f @ lowerAscii X # post \<and>
          \<not> startsIn containsRe None pre (f @ lowerAscii X # post) \<and>
          (f \<noteq> js ''containing '' \<or> \<not> litPrefix True (js ''the letter'') (lowerAscii X # post)) \<longrightarrow>
            (\<exists>p. parseNaturalLanguage toLowerCase (JString s) = Inr p \<and>
                 contains_character p = Some [lowerAscii X])) \<and>
         (isAsciiLetter X \<or> isDigit X \<longrightarrow>
            parseNaturalLanguage2 toLowerCase (JString (f @ [X])) =
              Inr \<lparr> word_count = None, is_palindrome = None, min_length = None,
                    max_length = None, contains_character = Some [lowerAscii X] \<rparr>) \<and>
         (isAsciiLetter X \<longrightarrow>
            parseNaturalLanguage toLowerCase (JString (f @ [X])) =
              Inr \<lparr> word_count = None, is_palindrome = None, min_length = None,
                    max_length = None, contains_character = Some [lowerAscii X] \<rparr>)"
proof (intro conjI impI)
  assume a: "isWordChar X \<and> s \<noteq> [] \<and> toLowerCase s = pre @ f @ lowerAscii X # post \<and>
          \<not> startsIn containsRe2 None pre (f @ lowerAscii X # post) \<and>
          (f \<noteq> js ''containing '' \<or> \<not> litPrefix True (js ''the letter'') (lowerAscii X # post))"
  with assms(2) have "f = js ''containing the letter '' \<or> f = js ''contains '' \<or>
           f = js ''containing '' \<and> \<not> litPrefix True (js ''the letter'') (lowerAscii X # post)"
    by blast
  moreover from a have "isWordChar X" "s \<noteq> []" "toLowerCase s = pre @ f @ lowerAscii X # post"
    "\<not> startsIn containsRe2 None pre (f @ lowerAscii X # post)"
    by blast+
  ultimately show "\<exists>p. parseNaturalLanguage2 toLowerCase (JString s) = Inr p \<and>
                 contains_character p =
                   Some (if reTest firstVowelRe (toLowerCase s) then js ''a'' else [lowerAscii X])"
    by (rule contains_sentence_second)
next
  assume a: "isAsciiLetter X \<and> trim s \<noteq> [] \<and> toLowerCase s = pre @ f @ lowerAscii X # post \<and>
          \<not> startsIn containsRe None pre (f @ lowerAscii X # post) \<and>
          (f \<noteq> js ''containing '' \<or> \<not> litPrefix True (js ''the letter'') (lowerAscii X # post))"
  with assms(2) have "f = js ''containing the letter '' \<or> f = js ''contains '' \<or>
           f = js ''containing '' \<and> \<not> litPrefix True (js ''the letter'') (lowerAscii X # post)"
    by blast
  moreover from a have "isAsciiLetter X" "trim s \<noteq> []"
    "toLowerCase s = pre @ f @ lowerAscii X # post"
    "\<not> startsIn containsRe None pre (f @ lowerAscii X # post)"
    by blast+
  ultimately show "\<exists>p. parseNaturalLanguage toLowerCase (JString s) = Inr p \<and>
                 contains_character p = Some [lowerAscii X]"
    using assms(1) by (intro contains_sentence_first)
next
  assume "isAsciiLetter X \<or> isDigit X"
  with assms show "parseNaturalLanguage2 toLowerCase (JString (f @ [X])) =
              Inr \<lparr> word_count = None, is_palindrome = None, min_length = None,
                    max_length = None, contains_character = Some [lowerAscii X] \<rparr>"
    by (intro contains_form_second)
next
  assume "isAsciiLetter X"
  with assms show "parseNaturalLanguage toLowerCase (JString (f @ [X])) =
              Inr \<lparr> word_count = None, is_palindrome = None, min_length = None,
                    max_length = None, contains_character = Some [lowerAscii X] \<rparr>"
    by (intro contains_form_first)
qed


theorem C5_contains_forms_witness:
  "ascii_lowering toLowerCaseAscii \<and> isAsciiLetter 0x5A \<and> isWordChar 0x5A \<and> isDigit 0x37 \<and>
   trim (js ''Strings shorter than 10 containing the letter Z'') \<noteq> [] \<and>
   toLowerCaseAscii (js ''Strings shorter than 10 containing the letter Z'') =
     js ''strings shorter than 10 '' @ js ''containing the letter '' @ lowerAscii 0x5A # [] \<and>
   \<not> startsIn containsRe2 None (js ''strings shorter than 10 '')
       (js ''containing the letter '' @ lowerAscii 0x5A # []) \<and>
   \<not> startsIn containsRe None (js ''strings shorter than 10 '')
       (js ''containing the letter '' @ lowerAscii 0x5A # []) \<and>
   (\<exists>p. parseNaturalLanguage2 toLowerCaseAscii
          (JString (js ''Strings shorter than 10 containing the letter Z'')) = Inr p \<and>
        contains_character p = Some (js ''z'')) \<and>
   (\<exists>p. parseNaturalLanguage toLowerCaseAscii
          (JString (js ''Strings shorter than 10 containing the letter Z'')) = Inr p \<and>
        contains_character p = Some (js ''z'')) \<and>
   trim (js ''words containing Z or more'') \<noteq> [] \<and>
   toLowerCaseAscii (js ''words containing Z or more'') =
     js ''words '' @ js ''containing '' @ lowerAscii 0x5A # js '' or more'' \<and>
   \<not> startsIn containsRe None (js ''words '') (js ''containing '' @ lowerAscii 0x5A # js '' or more'') \<and>
   \<not> litPrefix True (js ''the letter'') (lowerAscii 0x5A # js '' or more'') \<and>
   (\<exists>p. parseNaturalLanguage toLowerCaseAscii (JString (js ''words containing Z or more'')) = Inr p \<and>
        contains_character p = Some (js ''z'')) \<and>
   parseNaturalLanguage2 toLowerCaseAscii (JString (js ''contains '' @ [0x37])) =
     Inr \<lparr> word_count = None, is_palindrome = None, min_length = None,
           max_length = None, contains_character = Some [0x37] \<rparr> \<and>
   parseNaturalLanguage toLowerCaseAscii (JString (js ''containing '' @ [0x5A])) =
     Inr \<lparr> word_count = None, is_palindrome = None, min_length = None,
           max_length = None, contains_character = Some (js ''z'') \<rparr>"
proof -
  let ?s = "js ''Strings shorter than 10 containing the letter Z''"
  let ?pre = "js ''strings shorter than 10 ''"
  let ?f = "js ''containing the letter ''"
  let ?s' = "js ''words containing Z or more''"
  have c: "isAsciiLetter 0x5A" "isWordChar 0x5A" "isDigit 0x37" "lowerAscii 0x37 = 0x37"
    and z: "[lowerAscii 0x5A] = js ''z''"
    by (simp_all add: char_defs js_def)
  have t: "trim ?s \<noteq> []" "trim ?s' \<noteq> []" and ne: "?s \<noteq> []"
    by (simp_all add: trim_def js_def isWhiteSpace_def)
  have q: "toLowerCaseAscii ?s = ?pre @ ?f @ lowerAscii 0x5A # []"
    by (simp add: toLowerCaseAscii_def js_def char_defs)
  have q': "toLowerCaseAscii ?s' = js ''words '' @ js ''containing '' @ lowerAscii 0x5A # js '' or more''"
    by (simp add: toLowerCaseAscii_def js_def char_defs)
  have n2: "\<not> startsIn containsRe2 None ?pre (?f @ lowerAscii 0x5A # [])"
    by (simp add: js_def char_defs re_eval rule_defs)
  have n1: "\<not> startsIn containsRe None ?pre (?f @ lowerAscii 0x5A # [])"
    by (simp add: js_def char_defs re_eval rule_defs)
  have n1': "\<not> startsIn containsRe None (js ''words '') (js ''containing '' @ lowerAscii 0x5A # js '' or more'')"
    by (simp add: js_def char_defs re_eval rule_defs)
  have l: "\<not> litPrefix True (js ''the letter'') (lowerAscii 0x5A # js '' or more'')"
    by (simp add: js_def char_defs)
  have d: "?f \<noteq> js ''containing ''"
    by (simp add: js_def)
  have v: "\<not> reTest firstVowelRe (toLowerCaseAscii ?s)"
    by (simp add: toLowerCaseAscii_def js_def char_defs re_eval rule_defs)
  from C5_contains_forms [OF ascii_lowering_toLowerCaseAscii, of ?f "0x5A" ?s ?pre "[]"]
    c ne t q n1 n2 d v z
  have r1: "(\<exists>p. parseNaturalLanguage2 toLowerCaseAscii (JString ?s) = Inr p \<and>
                contains_character p = Some (js ''z'')) \<and>
            (\<exists>p. parseNaturalLanguage toLowerCaseAscii (JString ?s) = Inr p \<and>
                contains_character p = Some (js ''z''))"
    by simp
  from C5_contains_forms [OF ascii_lowering_toLowerCaseAscii, of "js ''containing ''" "0x5A" ?s'
      "js ''words ''" "js '' or more''"] c t q' n1' l z
  have r2: "\<exists>p. parseNaturalLanguage toLowerCaseAscii (JString ?s') = Inr p \<and>
                contains_character p = Some (js ''z'')"
    by simp
  from C5_contains_forms [OF ascii_lowering_toLowerCaseAscii, of "js ''contains ''" "0x37"] c
  have r3: "parseNaturalLanguage2 toLowerCaseAscii (JString (js ''contains '' @ [0x37])) =
     Inr \<lparr> word_count = None, is_palindrome = None, min_length = None,
           max_length = None, contains_character = Some [0x37] \<rparr>"
    by simp
  from C5_contains_forms [OF ascii_lowering_toLowerCaseAscii, of "js ''containing ''" "0x5A"] c z
  have r4: "parseNaturalLanguage toLowerCaseAscii (JString (js ''containing '' @ [0x5A])) =
     Inr \<lparr> word_count = None, is_palindrome = None, min_length = None,
           max_length = None, contains_character = Some (js ''z'') \<rparr>"
    by simp
  show ?thesis
    using ascii_lowering_toLowerCaseAscii c t q q' n1 n2 n1' l r1 r2 r3 r4 by blast
qed

subsection \<open>The length rules\<close>

text \<open>
  C7, as the spec states it, fails beyond the integers that a Number represents
  exactly: for \<open>N = 2\<^sup>5\<^sup>3 = 9007199254740992\<close> the sum \<open>n + 1\<close> rounds back to \<open>N\<close>,
  and \<open>min_length\<close> is \<open>N\<close>, not \<open>N + 1\<close>.
\<close>

theorem C7_precision_counterexample:
  "parseNaturalLanguage toLowerCaseAscii (JString (js ''longer than 9007199254740992'')) =
     Inr \<lparr> word_count = None, is_palindrome = None, min_length = Some (Num 9007199254740992),
           max_length = None, contains_character = None \<rparr>"
  by (simp add: parse_eval js_def char_defs re_eval rule_defs bitLength.simps)

lemma palindromic_longer_than_5:
  "parseNaturalLanguage toLowerCaseAscii (JString (js ''palindromic strings longer than 5'')) =
     Inr \<lparr> word_count = None, is_palindrome = Some True, min_length = Some (Num 6),
           max_length = None, contains_character = None \<rparr>"
  by (simp add: parse_eval js_def char_defs re_eval rule_defs)

text \<open>
  C7 (amended): let the lower-cased sentence be \<open>pre\<close>, then \<open>"longer than "\<close>, then
  a non-empty run \<open>ds\<close> of decimal digits of value \<open>N < 2\<^sup>5\<^sup>3\<close>, then \<open>post\<close>, which
  does not start with a digit, and let the rule's pattern have no match that starts
  in \<open>pre\<close>: then \<open>min_length = N + 1\<close>. Likewise with \<open>"shorter than "\<close>:
  \<open>max_length = N - 1\<close>. And \<open>compile("palindromic strings longer than 5")\<close> is
  \<open>{is_palindrome: true, min_length: 6}\<close>.
\<close>

theorem C7_length_bounds:
  assumes "trim s \<noteq> []" and "ds \<noteq> []" and "list_all isDigit ds"
    and "post = [] \<or> \<not> isDigit (hd post)" and "digitsValue ds < 2 ^ 53"
  shows "(toLowerCase s = pre @ js ''longer than '' @ ds @ post \<and>
          \<not> reTest longerRe (pre @ js ''longer than '') \<longrightarrow>
            (\<exists>p. parseNaturalLanguage toLowerCase (JString s) = Inr p \<and>
                 min_length p = Some (Num (int (digitsValue ds) + 1)))) \<and>
         (toLowerCase s = pre @ js ''shorter than '' @ ds @ post \<and>
          \<not> reTest shorterRe (pre @ js ''shorter than '') \<longrightarrow>
            (\<exists>p. parseNaturalLanguage toLowerCase (JString s) = Inr p \<and>
                 max_length p = Some (Num (int (digitsValue ds) - 1)))) \<and>
         (ascii_lowering toLowerCase \<longrightarrow>
            parseNaturalLanguage toLowerCase (JString (js ''palindromic strings longer than 5'')) =
              Inr \<lparr> word_count = None, is_palindrome = Some True, min_length = Some (Num 6),
                    max_length = None, contains_character = None \<rparr>)"
proof (intro conjI impI)
  assume a: "toLowerCase s = pre @ js ''longer than '' @ ds @ post \<and>
          \<not> reTest longerRe (pre @ js ''longer than '')"
  then have "lengthRule longerRe 1 (toLowerCase s) = Some (Num (int (digitsValue ds) + 1))"
    using min_length_first [OF _ assms(2-5), of pre] by simp
  with assms(1) show "\<exists>p. parseNaturalLanguage toLowerCase (JString s) = Inr p \<and>
                 min_length p = Some (Num (int (digitsValue ds) + 1))"
    by (rule parse_min_length)
next
  assume a: "toLowerCase s = pre @ js ''shorter than '' @ ds @ post \<and>
          \<not> reTest shorterRe (pre @ js ''shorter than '')"
  then have "lengthRule shorterRe (- 1) (toLowerCase s) = Some (Num (int (digitsValue ds) - 1))"
    using max_length_first [OF _ assms(2-5), of pre] by simp
  with assms(1) show "\<exists>p. parseNaturalLanguage toLowerCase (JString s) = Inr p \<and>
                 max_length p = Some (Num (int (digitsValue ds) - 1))"
    by (rule parse_max_length)
next
  assume al: "ascii_lowering toLowerCase"
  have "list_all isAscii (js ''palindromic strings longer than 5'')"
    by (simp add: js_def isAscii_def)
  from parse_ascii [OF al this] palindromic_longer_than_5
  show "parseNaturalLanguage toLowerCase (JString (js ''palindromic strings longer than 5'')) =
              Inr \<lparr> word_count = None, is_palindrome = Some True, min_length = Some (Num 6),
                    max_length = None, contains_character = None \<rparr>"
    by simp
qed

theorem C7_length_bounds_witness:
  "trim (js ''strings shorter than 10 longer than 5'') \<noteq> [] \<and>
   js ''5'' \<noteq> [] \<and> list_all isDigit (js ''5'') \<and> digitsValue (js ''5'') = 5 \<and>
   toLowerCaseAscii (js ''strings shorter than 10 longer than 5'') =
     js ''strings shorter than 10 '' @ js ''longer than '' @ js ''5'' @ [] \<and>
   \<not> reTest longerRe (js ''strings shorter than 10 '' @ js ''longer than '') \<and>
   (\<exists>p. parseNaturalLanguage toLowerCaseAscii (JString (js ''strings shorter than 10 longer than 5'')) = Inr p \<and>
        min_length p = Some (Num 6)) \<and>
   js ''10'' \<noteq> [] \<and> list_all isDigit (js ''10'') \<and> digitsValue (js ''10'') = 10 \<and>
   \<not> isDigit (hd (js '' longer than 5'')) \<and>
   toLowerCaseAscii (js ''strings shorter than 10 longer than 5'') =
     js ''strings '' @ js ''shorter than '' @ js ''10'' @ js '' longer than 5'' \<and>
   \<not> reTest shorterRe (js ''strings '' @ js ''shorter than '') \<and>
   (\<exists>p. parseNaturalLanguage toLowerCaseAscii (JString (js ''strings shorter than 10 longer than 5'')) = Inr p \<and>
        max_length p = Some (Num 9)) \<and>
   ascii_lowering toLowerCaseAscii \<and>
   parseNaturalLanguage toLowerCaseAscii (JString (js ''palindromic strings longer than 5'')) =
     Inr \<lparr> word_count = None, is_palindrome = Some True, min_length = Some (Num 6),
           max_length = None, contains_character = None \<rparr>"
proof -
  let ?s = "js ''strings shorter than 10 longer than 5''"
  have t: "trim ?s \<noteq> []"
    by (simp add: trim_def js_def isWhiteSpace_def)
  have d5: "js ''5'' \<noteq> []" "list_all isDigit (js ''5'')" "digitsValue (js ''5'') = 5"
    by (simp_all add: js_def isDigit_def digitsValue_def digitValue_def)
  have d10: "js ''10'' \<noteq> []" "list_all isDigit (js ''10'')" "digitsValue (js ''10'') = 10"
    "\<not> isDigit (hd (js '' longer than 5''))"
    by (simp_all add: js_def isDigit_def digitsValue_def digitValue_def)
  have q1: "toLowerCaseAscii ?s = js ''strings shorter than 10 '' @ js ''longer than '' @ js ''5'' @ []"
    by (simp add: toLowerCaseAscii_def js_def char_defs)
  have q2: "toLowerCaseAscii ?s = js ''strings '' @ js ''shorter than '' @ js ''10'' @ js '' longer than 5''"
    by (simp add: toLowerCaseAscii_def js_def char_defs)
  have n1: "\<not> reTest longerRe (js ''strings shorter than 10 '' @ js ''longer than '')"
    by (simp add: js_def char_defs re_eval rule_defs)
  have n2: "\<not> reTest shorterRe (js ''strings '' @ js ''shorter than '')"
    by (simp add: js_def char_defs re_eval rule_defs)
  have b5: "digitsValue (js ''5'') < 2 ^ 53" and b10: "digitsValue (js ''10'') < 2 ^ 53"
    using d5(3) d10(3) by simp_all
  from C7_length_bounds [of ?s "js ''5''" "[]" toLowerCaseAscii "js ''strings shorter than 10 ''",
      OF t d5(1,2) _ b5] q1 n1 d5(3)
  have r1: "\<exists>p. parseNaturalLanguage toLowerCaseAscii (JString ?s) = Inr p \<and> min_length p = Some (Num 6)"
    by simp
  from C7_length_bounds [of ?s "js ''10''" "js '' longer than 5''" toLowerCaseAscii "js ''strings ''",
      OF t d10(1,2) _ b10] q2 n2 d10(3,4)
  have r2: "\<exists>p. parseNaturalLanguage toLowerCaseAscii (JString ?s) = Inr p \<and> max_length p = Some (Num 9)"
    by simp
  from C7_length_bounds [of ?s "js ''5''" "[]" toLowerCaseAscii "js ''strings shorter than 10 ''",
      OF t d5(1,2) _ b5] ascii_lowering_toLowerCaseAscii
  have r3: "parseNaturalLanguage toLowerCaseAscii (JString (js ''palindromic strings longer than 5'')) =
     Inr \<lparr> word_count = None, is_palindrome = Some True, min_length = Some (Num 6),
           max_length = None, contains_character = None \<rparr>"
    by simp
  show ?thesis
    using t d5 d10 q1 q2 n1 n2 r1 r2 r3 ascii_lowering_toLowerCaseAscii by blast
qed

section \<open>The two query paths\<close>

text \<open>
  C1, as the spec states it, fails on a record whose string has the character in
  upper case only: with \<open>"A"\<close> stored, the filter \<open>contains_character = a\<close> selects
  nothing, although the frequency map has the key \<open>A\<close> with count 1. No handler of
  the repository looks the upper-case key up.
\<close>

theorem C1_uppercase_counterexample:
  "getAllStrings toLowerCaseAscii (emptyParams\<lparr>qp_contains_character := Some (js ''a'')\<rparr>)
     (snd (createString id toLowerCaseAscii 0 (Some (JString (js ''A''))) [])) = Inr [] \<and>
   map d_value (snd (createString id toLowerCaseAscii 0 (Some (JString (js ''A''))) [])) =
     [js ''A''] \<and>
   map (p_character_frequency_map \<circ> d_properties)
     (snd (createString id toLowerCaseAscii 0 (Some (JString (js ''A''))) [])) =
     [[(js ''A'', 1)]]"
proof -
  have m: "charFrequencyMap (js ''A'') = [(js ''A'', 1)]"
    by (simp add: charFrequencyMap_def js_def orZero_def)
  have q: "getAllStringsQuery toLowerCaseAscii (emptyParams\<lparr>qp_contains_character := Some (js ''a'')\<rparr>) =
             Inr (emptyQuery\<lparr>mq_frequency_key := Some (js ''a'')\<rparr>)"
    using contains_queries(1) [OF ascii_lowering_toLowerCaseAscii, of "0x61"]
    by (simp add: js_def isLowerAscii_def)
  show ?thesis
    by (simp add: createString_def analyze_string m getAllStrings_def q andThen_def storeFind_def
        mongoMatches_key) (simp add: js_def)
qed

text \<open>
  C1 (amended): for every stored Properties and every lowercase ASCII letter \<open>c\<close>,
  the store query that \<open>getAllStrings\<close> builds from \<open>contains_character = c\<close>, and the
  one that \<open>filterByNaturalLanguage\<close> builds from a parsed object with
  \<open>contains_character = c\<close>, match exactly when \<open>character_frequency_map\<close> has an
  entry with a strictly positive count under the key \<open>c\<close> itself; the upper-case key
  is not looked up. This holds for every copy of the controller. The repository has
  no in-memory matcher.
\<close>

theorem C1_contains_key:
  assumes "ascii_lowering toLowerCase" and "isLowerAscii c"
  shows "(\<exists>q. getAllStringsQuery toLowerCase (emptyParams\<lparr>qp_contains_character := Some [c]\<rparr>) = Inr q \<and>
            (mongoMatches q props \<longleftrightarrow>
               (\<exists>n. map_of (p_character_frequency_map props) [c] = Some n \<and> 0 < n))) \<and>
         (mongoMatches (naturalLanguageQuery toLowerCase (emptyParsed\<lparr>contains_character := Some [c]\<rparr>)) props \<longleftrightarrow>
            (\<exists>n. map_of (p_character_frequency_map props) [c] = Some n \<and> 0 < n)) \<and>
         (\<exists>q. getAllStringsQuery3 (emptyParams\<lparr>qp_contains_character := Some [c]\<rparr>) = Inr q \<and>
            (mongoMatches q props \<longleftrightarrow>
               (\<exists>n. map_of (p_character_frequency_map props) [c] = Some n \<and> 0 < n))) \<and>
         (mongoMatches (naturalLanguageQuery3 (emptyParsed\<lparr>contains_character := Some [c]\<rparr>)) props \<longleftrightarrow>
            (\<exists>n. map_of (p_character_frequency_map props) [c] = Some n \<and> 0 < n))"
  by (simp add: contains_queries [OF assms] mongoMatches_key)

theorem C1_contains_key_witness:
  "ascii_lowering toLowerCaseAscii \<and> isLowerAscii 0x61 \<and>
   (\<exists>q. getAllStringsQuery toLowerCaseAscii (emptyParams\<lparr>qp_contains_character := Some [0x61]\<rparr>) = Inr q \<and>
        mongoMatches q
          \<lparr> p_length = 2, p_is_palindrome = False, p_unique_characters = 2, p_word_count = 1,
            p_sha256_hash = [], p_character_frequency_map = [([0x41], 1), ([0x61], 1)] \<rparr> \<and>
        \<not> mongoMatches q
          \<lparr> p_length = 1, p_is_palindrome = True, p_unique_characters = 1, p_word_count = 1,
            p_sha256_hash = [], p_character_frequency_map = [([0x41], 1)] \<rparr>)"
proof -
  have l: "isLowerAscii 0x61"
    by (simp add: isLowerAscii_def)
  from C1_contains_key [OF ascii_lowering_toLowerCaseAscii l,
      of "\<lparr> p_length = 2, p_is_palindrome = False, p_unique_characters = 2, p_word_count = 1,
            p_sha256_hash = [], p_character_frequency_map = [([0x41], 1), ([0x61], 1)] \<rparr>"]
    C1_contains_key [OF ascii_lowering_toLowerCaseAscii l,
      of "\<lparr> p_length = 1, p_is_palindrome = True, p_unique_characters = 1, p_word_count = 1,
            p_sha256_hash = [], p_character_frequency_map = [([0x41], 1)] \<rparr>"]
  show ?thesis
    using ascii_lowering_toLowerCaseAscii l by auto
qed

text \<open>
  C4: for every object that either definition of the parser returns for a sentence,
  every set of explicit parameters that carries the same field values, and every
  store, \<open>filterByNaturalLanguage\<close> on the sentence and \<open>getAllStrings\<close> on the
  parameters answer with the same data, the documents that the query of the parsed
  object selects. The same holds for the third copy of the controller.
\<close>

theorem C4_paths_agree:
  assumes "ascii_lowering toLowerCase"
    and "parse = parseNaturalLanguage \<or> parse = parseNaturalLanguage2"
    and "parse toLowerCase (JString s) = Inr parsed"
    and "sameFieldValues params parsed"
  shows "filterByNaturalLanguage parse toLowerCase (Some s) docs = getAllStrings toLowerCase params docs \<and>
         filterByNaturalLanguage3 parse toLowerCase (Some s) docs = getAllStrings3 params docs \<and>
         getAllStrings toLowerCase params docs =
           Inr (storeFind (naturalLanguageQuery toLowerCase parsed) docs)"
  using assms by (rule paths_agree)

theorem C4_paths_agree_witness:
  "ascii_lowering toLowerCaseAscii \<and>
   parseNaturalLanguage toLowerCaseAscii (JString (js ''palindromic strings longer than 5'')) =
     Inr \<lparr> word_count = None, is_palindrome = Some True, min_length = Some (Num 6),
           max_length = None, contains_character = None \<rparr> \<and>
   sameFieldValues
     (emptyParams\<lparr>qp_is_palindrome := Some (js ''true''), qp_min_length := Some (js ''6'')\<rparr>)
     \<lparr> word_count = None, is_palindrome = Some True, min_length = Some (Num 6),
       max_length = None, contains_character = None \<rparr> \<and>
   filterByNaturalLanguage parseNaturalLanguage toLowerCaseAscii
       (Some (js ''palindromic strings longer than 5''))
       (snd (createString id toLowerCaseAscii 0 (Some (JString (js ''racecar''))) [])) =
     getAllStrings toLowerCaseAscii
       (emptyParams\<lparr>qp_is_palindrome := Some (js ''true''), qp_min_length := Some (js ''6'')\<rparr>)
       (snd (createString id toLowerCaseAscii 0 (Some (JString (js ''racecar''))) []))"
proof -
  have p: "parseNaturalLanguage toLowerCaseAscii (JString (js ''palindromic strings longer than 5'')) =
     Inr \<lparr> word_count = None, is_palindrome = Some True, min_length = Some (Num 6),
           max_length = None, contains_character = None \<rparr>"
    by (rule palindromic_longer_than_5)
  have s: "sameFieldValues
     (emptyParams\<lparr>qp_is_palindrome := Some (js ''true''), qp_min_length := Some (js ''6'')\<rparr>)
     \<lparr> word_count = None, is_palindrome = Some True, min_length = Some (Num 6),
       max_length = None, contains_character = None \<rparr>"
    by (simp add: sameFieldValues_def emptyParams_def parseInt_def js_def char_defs digitsValue_def
        digitValue_def toNumber_def)
  have "parseNaturalLanguage = parseNaturalLanguage \<or> parseNaturalLanguage = parseNaturalLanguage2"
    by simp
  from C4_paths_agree [where parse = parseNaturalLanguage, OF ascii_lowering_toLowerCaseAscii this p s]
  show ?thesis
    using ascii_lowering_toLowerCaseAscii p s by simp
qed

end
